theory Spec2Isabelle
  imports Main "HOL-Library.Word"
begin

unbundle bit_operations_syntax

section \<open>The stream cipher of \<open>frontend/utils/chacha20.ts\<close>\<close>

text \<open>
  A \<open>Uint8Array\<close> is a list of bytes and a \<open>Uint32Array\<close> a list of 32-bit words.
  Reading a typed array out of range gives \<open>undefined\<close>, which every bitwise operator of
  the source (\<open>|\<close>, \<open>^\<close>, \<open><<\<close>) turns into 0: \<open>byteAt\<close> is that read. Writing a
  typed array out of range is ignored, as \<open>xs[i := v]\<close> is.
\<close>

type_synonym u8 = "8 word"
type_synonym u32 = "32 word"

definition byteAt :: "u8 list \<Rightarrow> nat \<Rightarrow> u8" where
  "byteAt xs i = (if i < length xs then xs ! i else 0)"

text \<open>
  \<open>rotl32(v, c) = ((v << c) | (v >>> (32 - c))) >>> 0\<close>. The shift operators of the
  language use the low five bits of the shift count: \<open>c mod 32\<close> for the left shift,
  and for the right shift \<open>32 - c\<close> modulo 32 as an integer, which is
  \<open>(32 - c mod 32) mod 32\<close>. The callers pass 16, 12, 8 and 7.
\<close>

definition rotl32 :: "u32 \<Rightarrow> nat \<Rightarrow> u32" where
  "rotl32 v c = push_bit (c mod 32) v OR drop_bit ((32 - c mod 32) mod 32) v"

text \<open>\<open>quarterRound\<close> mutates four cells of the state array in place, in eight steps.\<close>

definition quarterRound :: "u32 list \<Rightarrow> nat \<Rightarrow> nat \<Rightarrow> nat \<Rightarrow> nat \<Rightarrow> u32 list" where
  "quarterRound state a b c d =
    (let s1 = state[a := state ! a + state ! b];
         s2 = s1[d := rotl32 (s1 ! d XOR s1 ! a) 16];
         s3 = s2[c := s2 ! c + s2 ! d];
         s4 = s3[b := rotl32 (s3 ! b XOR s3 ! c) 12];
         s5 = s4[a := s4 ! a + s4 ! b];
         s6 = s5[d := rotl32 (s5 ! d XOR s5 ! a) 8];
         s7 = s6[c := s6 ! c + s6 ! d];
         s8 = s7[b := rotl32 (s7 ! b XOR s7 ! c) 7]
     in s8)"

text \<open>
  The word read from four bytes at offset \<open>4 * i\<close>:
  \<open>(x[i*4] | (x[i*4+1] << 8) | (x[i*4+2] << 16) | (x[i*4+3] << 24)) >>> 0\<close>.
\<close>

definition readWord :: "u8 list \<Rightarrow> nat \<Rightarrow> u32" where
  "readWord x i =
     ucast (byteAt x (i * 4))
       OR push_bit 8 (ucast (byteAt x (i * 4 + 1)))
       OR push_bit 16 (ucast (byteAt x (i * 4 + 2)))
       OR push_bit 24 (ucast (byteAt x (i * 4 + 3)))"

definition constants :: "u8 list" where
  "constants =
     [0x65, 0x78, 0x70, 0x61, 0x6e, 0x64, 0x20, 0x33,
      0x32, 0x2d, 0x62, 0x79, 0x74, 0x65, 0x20, 0x6b]"

text \<open>
  The initial state: \<open>new Uint32Array(16)\<close> filled by the three loops and the counter
  assignment. \<open>counter >>> 0\<close> is the counter modulo \<open>2 ^ 32\<close>.
\<close>

definition initState :: "u8 list \<Rightarrow> nat \<Rightarrow> u8 list \<Rightarrow> u32 list" where
  "initState key counter nonce =
     map (readWord constants) [0..<4]
       @ map (readWord key) [0..<8]
       @ [word_of_nat counter]
       @ map (readWord nonce) [0..<3]"

text \<open>One pass of the body of the round loop: four column rounds, four diagonal rounds.\<close>

definition doubleRound :: "u32 list \<Rightarrow> u32 list" where
  "doubleRound w0 =
    (let w1 = quarterRound w0 0 4 8 12;
         w2 = quarterRound w1 1 5 9 13;
         w3 = quarterRound w2 2 6 10 14;
         w4 = quarterRound w3 3 7 11 15;
         w5 = quarterRound w4 0 5 10 15;
         w6 = quarterRound w5 1 6 11 12;
         w7 = quarterRound w6 2 7 8 13;
         w8 = quarterRound w7 3 4 9 14
     in w8)"

text \<open>\<open>for (let i = 0; i < 10; i++) { ... }\<close>\<close>

fun rounds :: "nat \<Rightarrow> u32 list \<Rightarrow> u32 list" where
  "rounds 0 working = working"
| "rounds (Suc n) working = rounds n (doubleRound working)"

text \<open>\<open>for (let i = 0; i < 16; i++) working[i] = (working[i] + state[i]) >>> 0\<close>\<close>

fun addState :: "nat \<Rightarrow> u32 list \<Rightarrow> u32 list \<Rightarrow> u32 list" where
  "addState 0 state working = working"
| "addState (Suc n) state working =
     (let w = addState n state working in w[n := w ! n + state ! n])"

text \<open>\<open>view.setUint32(i * 4, w, true)\<close> stores the four bytes of \<open>w\<close>, lowest first.\<close>

definition setUint32LE :: "u32 \<Rightarrow> u8 list" where
  "setUint32LE w = [ucast w, ucast (drop_bit 8 w), ucast (drop_bit 16 w), ucast (drop_bit 24 w)]"

definition serialize :: "u32 list \<Rightarrow> u8 list" where
  "serialize working = concat (map (\<lambda>i. setUint32LE (working ! i)) [0..<16])"

definition chacha20Block :: "u8 list \<Rightarrow> nat \<Rightarrow> u8 list \<Rightarrow> u8 list" where
  "chacha20Block key counter nonce =
    (let state = initState key counter nonce;
         working = rounds 10 state
     in serialize (addState 16 state working))"

text \<open>
  The inner loop of \<open>chacha20Encrypt\<close>:
  \<open>for (let i = 0; i < blockSize; i++) ciphertext[pos + i] = plaintext[pos + i] ^ block[i]\<close>.
\<close>

function xorLoop :: "u8 list \<Rightarrow> u8 list \<Rightarrow> nat \<Rightarrow> nat \<Rightarrow> nat \<Rightarrow> u8 list \<Rightarrow> u8 list" where
  "xorLoop plaintext block pos blockSize i ciphertext =
     (if i < blockSize
      then xorLoop plaintext block pos blockSize (i + 1)
             (ciphertext[pos + i := byteAt plaintext (pos + i) XOR byteAt block i])
      else ciphertext)"
  by pat_completeness auto
termination
  by (relation "measure (\<lambda>(plaintext, block, pos, blockSize, i, ciphertext). blockSize - i)") auto

declare xorLoop.simps [simp del]

text \<open>
  The outer loop: \<open>while (pos < plaintext.length) { ... pos += blockSize; counter++ }\<close>.
  The counter is a language number that counts up from 0; \<open>chacha20Block\<close> reduces it
  modulo \<open>2 ^ 32\<close>.
\<close>

function encryptLoop :: "u8 list \<Rightarrow> u8 list \<Rightarrow> u8 list \<Rightarrow> nat \<Rightarrow> nat \<Rightarrow> u8 list \<Rightarrow> u8 list" where
  "encryptLoop key nonce plaintext pos counter ciphertext =
     (if pos < length plaintext
      then (let block = chacha20Block key counter nonce;
                remaining = length plaintext - pos;
                blockSize = min 64 remaining
            in encryptLoop key nonce plaintext (pos + blockSize) (counter + 1)
                 (xorLoop plaintext block pos blockSize 0 ciphertext))
      else ciphertext)"
  by pat_completeness auto
termination
  by (relation "measure (\<lambda>(key, nonce, plaintext, pos, counter, ciphertext). length plaintext - pos)")
     auto

declare encryptLoop.simps [simp del]

definition chacha20Encrypt :: "u8 list \<Rightarrow> u8 list \<Rightarrow> u8 list \<Rightarrow> u8 list" where
  "chacha20Encrypt key nonce plaintext =
     encryptLoop key nonce plaintext 0 0 (replicate (length plaintext) 0)"

definition chacha20Decrypt :: "u8 list \<Rightarrow> u8 list \<Rightarrow> u8 list \<Rightarrow> u8 list" where
  "chacha20Decrypt key nonce ciphertext = chacha20Encrypt key nonce ciphertext"

text \<open>
  The outcome of a call of \<open>chacha20Encrypt\<close>. The source has no \<open>throw\<close> and no step
  of its body throws (typed-array reads and writes out of range and bitwise operators on
  \<open>undefined\<close> do not), so every call returns an array.
\<close>

datatype cipherError = InvalidKeyMaterial

definition streamApply :: "u8 list \<Rightarrow> u8 list \<Rightarrow> u8 list \<Rightarrow> cipherError + u8 list" where
  "streamApply key nonce data = Inr (chacha20Encrypt key nonce data)"

section \<open>Hex conversion (\<open>utils/bytes\<close>) and key derivation\<close>

text \<open>
  Strings are lists of characters below 256: the strings of the language whose code units
  are all below 256. Hex strings and addresses are ASCII.
\<close>

definition hexDigit :: "nat \<Rightarrow> char" where
  "hexDigit d = ''0123456789abcdef'' ! d"

text \<open>\<open>b.toString(16)\<close> for a non-negative integer: lowercase digits, no leading zero.\<close>

fun toString16 :: "nat \<Rightarrow> string" where
  "toString16 n = (if n < 16 then [hexDigit n] else toString16 (n div 16) @ [hexDigit (n mod 16)])"

declare toString16.simps [simp del]

definition padStart :: "nat \<Rightarrow> char \<Rightarrow> string \<Rightarrow> string" where
  "padStart n c s = replicate (n - length s) c @ s"

definition bytesToHex :: "u8 list \<Rightarrow> string" where
  "bytesToHex bytes = ''0x'' @ concat (map (\<lambda>b. padStart 2 CHR ''0'' (toString16 (unat b))) bytes)"

text \<open>
  \<open>parseInt(s, 16)\<close>: leading white space is skipped, then an optional sign, then an
  optional \<open>0x\<close> or \<open>0X\<close>, then the longest run of hex digits of either case. No digit
  gives \<open>NaN\<close>, here \<open>None\<close>.
\<close>

definition isWhiteSpace :: "char \<Rightarrow> bool" where
  "isWhiteSpace c = (of_char c \<in> {9, 10, 11, 12, 13, 32, 160 :: nat})"

definition digitValue :: "char \<Rightarrow> nat option" where
  "digitValue c =
     (let k = (of_char c :: nat) in
      if 48 \<le> k \<and> k \<le> 57 then Some (k - 48)
      else if 97 \<le> k \<and> k \<le> 102 then Some (k - 87)
      else if 65 \<le> k \<and> k \<le> 70 then Some (k - 55)
      else None)"

definition isHexDigit :: "char \<Rightarrow> bool" where
  "isHexDigit c = (digitValue c \<noteq> None)"

definition digitsValue :: "string \<Rightarrow> nat" where
  "digitsValue ds = foldl (\<lambda>acc c. 16 * acc + the (digitValue c)) 0 ds"

definition parseInt16 :: "string \<Rightarrow> int option" where
  "parseInt16 s =
     (let s1 = dropWhile isWhiteSpace s;
          neg = (take 1 s1 = ''-'');
          s2 = (if take 1 s1 = ''-'' \<or> take 1 s1 = ''+'' then drop 1 s1 else s1);
          s3 = (if take 2 s2 = ''0x'' \<or> take 2 s2 = ''0X'' then drop 2 s2 else s2);
          ds = takeWhile isHexDigit s3
      in if ds = [] then None
         else Some (if neg then - int (digitsValue ds) else int (digitsValue ds)))"

text \<open>Storing a number in a \<open>Uint8Array\<close> cell: \<open>NaN\<close> becomes 0, an integer is reduced modulo 256.\<close>

definition toUint8 :: "int option \<Rightarrow> u8" where
  "toUint8 v = (case v of None \<Rightarrow> 0 | Some n \<Rightarrow> word_of_int n)"

text \<open>\<open>s.slice(a, b)\<close> for \<open>0 \<le> a \<le> b\<close>.\<close>

definition slice :: "string \<Rightarrow> nat \<Rightarrow> nat \<Rightarrow> string" where
  "slice s a b = take (b - a) (drop a s)"

text \<open>
  \<open>hexToBytes\<close>: \<open>new Uint8Array(cleanHex.length / 2)\<close> truncates a fractional length.
\<close>

definition hexToBytes :: "string \<Rightarrow> u8 list" where
  "hexToBytes hex =
     (let cleanHex = (if take 2 hex = ''0x'' then drop 2 hex else hex)
      in map (\<lambda>i. toUint8 (parseInt16 (slice cleanHex (i * 2) (i * 2 + 2))))
           [0..<length cleanHex div 2])"

text \<open>
  \<open>toLowerCase\<close>: among the characters below 256 the uppercase ones are \<open>A\<close> to
  \<open>Z\<close> (65 to 90) and the accented capitals 192 to 222 without the multiplication
  sign 215; the lowercase form of each is 32 higher.
\<close>

definition lowerChar :: "char \<Rightarrow> char" where
  "lowerChar c =
     (let k = (of_char c :: nat) in
      if (65 \<le> k \<and> k \<le> 90) \<or> (192 \<le> k \<and> k \<le> 222 \<and> k \<noteq> 215) then char_of (k + 32) else c)"

definition toLowerCase :: "string \<Rightarrow> string" where
  "toLowerCase s = map lowerChar s"

text \<open>
  \<open>toUtf8Bytes\<close> of the \<open>ethers\<close> package: a character below 128 is one byte, a
  character from 128 to 255 the two bytes \<open>0xC0 | (k >> 6)\<close> and \<open>0x80 | (k & 0x3F)\<close>.
\<close>

definition utf8Char :: "char \<Rightarrow> u8 list" where
  "utf8Char c =
     (let k = (of_char c :: nat) in
      if k < 128 then [word_of_nat k]
      else [word_of_nat (192 + k div 64), word_of_nat (128 + k mod 64)])"

definition toUtf8Bytes :: "string \<Rightarrow> u8 list" where
  "toUtf8Bytes s = concat (map utf8Char s)"

text \<open>
  \<open>keccak256\<close> comes from the \<open>ethers\<close> package: it hashes the bytes and returns the
  digest as a string, \<open>0x\<close> and two lowercase hex digits per byte. The digest function
  is the parameter \<open>H\<close>.
\<close>

definition keccak256 :: "(u8 list \<Rightarrow> u8 list) \<Rightarrow> u8 list \<Rightarrow> string" where
  "keccak256 H bytes = bytesToHex (H bytes)"

definition deriveKeyFromPasswordAddress :: "(u8 list \<Rightarrow> u8 list) \<Rightarrow> string \<Rightarrow> u8 list" where
  "deriveKeyFromPasswordAddress H passwordAddress =
     (let hash = keccak256 H (toUtf8Bytes (toLowerCase passwordAddress))
      in map (\<lambda>i. toUint8 (parseInt16 (slice hash (2 + i * 2) (4 + i * 2)))) [0..<32])"

text \<open>An address-shaped string: \<open>0x\<close> and 40 hex digits of either case.\<close>

definition addressShaped :: "string \<Rightarrow> bool" where
  "addressShaped s = (length s = 42 \<and> take 2 s = ''0x'' \<and> list_all isHexDigit (drop 2 s))"

section \<open>The ledger contract \<open>contracts/CityGuard.sol\<close>\<close>

type_synonym address = "160 word"
type_synonym eaddress = "256 word"
type_synonym externalEaddress = "256 word"

datatype reportStatus = Pending | Reviewed | Resolved

record report =
  reporter :: address
  title :: string
  encryptedData :: "u8 list"
  encryptedKey :: eaddress
  createdAt :: "64 word"
  status :: reportStatus

datatype event =
    ReportSubmitted nat address string "64 word"
  | ReportStatusUpdated nat reportStatus

text \<open>
  The storage of the contract: the array \<open>_reports\<close> and the mapping
  \<open>_reportsByReporter\<close>, whose value at an unused key is the empty array. The access
  grants made through the library and the emitted events are kept as logs. Array lengths
  and ids are \<open>uint256\<close> in the source; no array reaches \<open>2 ^ 256\<close> entries, and they
  are natural numbers here.
\<close>

record state =
  reports :: "report list"
  reportsByReporter :: "address \<Rightarrow> nat list"
  grants :: "(eaddress \<times> address) list"
  events :: "event list"

definition initial :: state where
  "initial = \<lparr>reports = [], reportsByReporter = (\<lambda>_. []), grants = [], events = []\<rparr>"

text \<open>
  The library \<open>FHE\<close> is not part of the repository. \<open>fromExternal\<close> checks the input
  proof for the sender and returns the handle, or reverts (\<open>None\<close>); \<open>thisAddress\<close> is
  the address of the contract, which \<open>allowThis\<close> grants.
\<close>

record fhe =
  fromExternal :: "externalEaddress \<Rightarrow> u8 list \<Rightarrow> address \<Rightarrow> eaddress option"
  thisAddress :: address

text \<open>
  A reverted call: a failed \<open>require\<close> with its message, a panic with its code (\<open>0x32\<close>
  for an array index out of bounds), or a revert inside \<open>FHE.fromExternal\<close>.
\<close>

datatype revert = Require string | Panic nat | ProofRejected

definition submitReport ::
  "fhe \<Rightarrow> address \<Rightarrow> nat \<Rightarrow> string \<Rightarrow> u8 list \<Rightarrow> externalEaddress \<Rightarrow> u8 list \<Rightarrow> state
     \<Rightarrow> revert + state" where
  "submitReport lib sender timestamp theTitle theData encKey inputProof s =
     (case fromExternal lib encKey inputProof sender of
        None \<Rightarrow> Inl ProofRejected
      | Some key \<Rightarrow>
          (let r = \<lparr>reporter = sender, title = theTitle, encryptedData = theData,
                    encryptedKey = key, createdAt = word_of_nat timestamp, status = Pending\<rparr>;
               reports1 = reports s @ [r];
               rid = length reports1 - 1;
               index1 = (reportsByReporter s)(sender := reportsByReporter s sender @ [rid]);
               grants1 = grants s @ [(encryptedKey (reports1 ! rid), thisAddress lib),
                                     (encryptedKey (reports1 ! rid), sender)];
               events1 = events s @ [ReportSubmitted rid sender theTitle (createdAt r)]
           in Inr \<lparr>reports = reports1, reportsByReporter = index1,
                    grants = grants1, events = events1\<rparr>))"

definition getReportCount :: "state \<Rightarrow> nat" where
  "getReportCount s = length (reports s)"

definition getReportCountByReporter :: "state \<Rightarrow> address \<Rightarrow> nat" where
  "getReportCountByReporter s p = length (reportsByReporter s p)"

definition getReportIdsByReporter :: "state \<Rightarrow> address \<Rightarrow> nat list" where
  "getReportIdsByReporter s p = reportsByReporter s p"

definition getReportMeta ::
  "state \<Rightarrow> nat \<Rightarrow> revert + (address \<times> string \<times> 64 word \<times> reportStatus)" where
  "getReportMeta s rid =
     (if rid < length (reports s)
      then (let r = reports s ! rid in Inr (reporter r, title r, createdAt r, status r))
      else Inl (Panic 0x32))"

definition getReportData :: "state \<Rightarrow> nat \<Rightarrow> revert + u8 list" where
  "getReportData s rid =
     (if rid < length (reports s) then Inr (encryptedData (reports s ! rid)) else Inl (Panic 0x32))"

definition getEncryptedKey :: "state \<Rightarrow> nat \<Rightarrow> revert + eaddress" where
  "getEncryptedKey s rid =
     (if rid < length (reports s) then Inr (encryptedKey (reports s ! rid)) else Inl (Panic 0x32))"

definition updateReportStatus :: "address \<Rightarrow> nat \<Rightarrow> reportStatus \<Rightarrow> state \<Rightarrow> revert + state" where
  "updateReportStatus sender rid newStatus s =
     (if \<not> rid < length (reports s) then Inl (Require ''Report does not exist'')
      else if \<not> reporter (reports s ! rid) = sender then Inl (Require ''Only reporter can update status'')
      else Inr (s\<lparr>reports := (reports s)[rid := (reports s ! rid)\<lparr>status := newStatus\<rparr>],
                  events := events s @ [ReportStatusUpdated rid newStatus]\<rparr>))"

text \<open>
  The failure kinds of the specification, and the kind of each revert of the contract:
  a missing report is \<open>NotFound\<close> whether a \<open>require\<close> or the bounds check of the
  array reports it. The two \<open>InvalidInput\<close> messages are those the test suite expects.
\<close>

datatype failure = InvalidInput | InvalidProof | NotFound | PermissionDenied | OtherFailure

definition failureKind :: "revert \<Rightarrow> failure" where
  "failureKind e =
     (if e = Require ''Report does not exist'' \<or> e = Panic 0x32 then NotFound
      else if e = Require ''Only reporter can update status'' then PermissionDenied
      else if e = ProofRejected then InvalidProof
      else if e = Require ''Title cannot be empty'' \<or> e = Require ''Encrypted data cannot be empty''
        then InvalidInput
      else OtherFailure)"

definition failsWith :: "revert + 'a \<Rightarrow> failure \<Rightarrow> bool" where
  "failsWith res k = (case res of Inl e \<Rightarrow> failureKind e = k | Inr _ \<Rightarrow> False)"

definition succeeds :: "revert + 'a \<Rightarrow> bool" where
  "succeeds res = (case res of Inl _ \<Rightarrow> False | Inr _ \<Rightarrow> True)"

text \<open>
  Transactions. A transaction names its sender, the block time and the call; a reverted
  call leaves the storage as it was.
\<close>

datatype call =
    SubmitReport string "u8 list" externalEaddress "u8 list"
  | UpdateReportStatus nat reportStatus

datatype tx = Tx address nat call

fun perform :: "fhe \<Rightarrow> state \<Rightarrow> tx \<Rightarrow> revert + state" where
  "perform lib s (Tx sender timestamp (SubmitReport theTitle theData encKey inputProof)) =
     submitReport lib sender timestamp theTitle theData encKey inputProof s"
| "perform lib s (Tx sender timestamp (UpdateReportStatus rid newStatus)) =
     updateReportStatus sender rid newStatus s"

definition exec :: "fhe \<Rightarrow> state \<Rightarrow> tx \<Rightarrow> state" where
  "exec lib s t = (case perform lib s t of Inl _ \<Rightarrow> s | Inr s' \<Rightarrow> s')"

fun run :: "fhe \<Rightarrow> state \<Rightarrow> tx list \<Rightarrow> state" where
  "run lib s [] = s"
| "run lib s (t # ts) = run lib (exec lib s t) ts"

fun isSubmit :: "tx \<Rightarrow> bool" where
  "isSubmit (Tx _ _ (SubmitReport _ _ _ _)) = True"
| "isSubmit (Tx _ _ (UpdateReportStatus _ _)) = False"

text \<open>The number of successful \<open>submitReport\<close> calls in a sequence of transactions.\<close>

fun submissions :: "fhe \<Rightarrow> state \<Rightarrow> tx list \<Rightarrow> nat" where
  "submissions lib s [] = 0"
| "submissions lib s (t # ts) =
     (if isSubmit t \<and> succeeds (perform lib s t) then 1 else 0) + submissions lib (exec lib s t) ts"

section \<open>The keystream block as the specification describes it\<close>

text \<open>
  Specification, section 4.1, in its own words: a state of 16 words made of four constant
  words, eight little-endian key words, the block counter and three little-endian nonce
  words; ten double rounds, each the quarter round (additions modulo \<open>2 ^ 32\<close>, XOR, left
  rotations by 16, 12, 8 and 7) on the four columns and then on the four diagonals; the
  initial state added word by word; the 16 words written little-endian. These definitions
  are compared with \<open>chacha20Block\<close> below; they use arithmetic where the source uses
  shifts, and values where the source updates an array in place.
\<close>

definition spec_le32 :: "u8 list \<Rightarrow> u32" where
  "spec_le32 bs =
     word_of_nat (unat (bs ! 0) + 2 ^ 8 * unat (bs ! 1) + 2 ^ 16 * unat (bs ! 2) + 2 ^ 24 * unat (bs ! 3))"

definition spec_words :: "nat \<Rightarrow> u8 list \<Rightarrow> u32 list" where
  "spec_words n bytes = map (\<lambda>i. spec_le32 (take 4 (drop (4 * i) bytes))) [0..<n]"

definition spec_constants :: "u32 list" where
  "spec_constants = [0x61707865, 0x3320646e, 0x79622d32, 0x6b206574]"

definition spec_init :: "u8 list \<Rightarrow> nat \<Rightarrow> u8 list \<Rightarrow> u32 list" where
  "spec_init key blockCounter nonce =
     spec_constants @ spec_words 8 key @ [word_of_nat blockCounter] @ spec_words 3 nonce"

fun spec_quarter :: "u32 \<times> u32 \<times> u32 \<times> u32 \<Rightarrow> u32 \<times> u32 \<times> u32 \<times> u32" where
  "spec_quarter (a0, b0, c0, d0) =
     (let a1 = a0 + b0; d1 = word_rotl 16 (d0 XOR a1);
          c1 = c0 + d1; b1 = word_rotl 12 (b0 XOR c1);
          a2 = a1 + b1; d2 = word_rotl 8 (d1 XOR a2);
          c2 = c1 + d2; b2 = word_rotl 7 (b1 XOR c2)
      in (a2, b2, c2, d2))"

fun spec_quarter_at :: "nat \<times> nat \<times> nat \<times> nat \<Rightarrow> u32 list \<Rightarrow> u32 list" where
  "spec_quarter_at (i, j, k, l) st =
     (case spec_quarter (st ! i, st ! j, st ! k, st ! l) of
        (a, b, c, d) \<Rightarrow> st[i := a, j := b, k := c, l := d])"

definition spec_columns :: "(nat \<times> nat \<times> nat \<times> nat) list" where
  "spec_columns = [(0, 4, 8, 12), (1, 5, 9, 13), (2, 6, 10, 14), (3, 7, 11, 15)]"

definition spec_diagonals :: "(nat \<times> nat \<times> nat \<times> nat) list" where
  "spec_diagonals = [(0, 5, 10, 15), (1, 6, 11, 12), (2, 7, 8, 13), (3, 4, 9, 14)]"

definition spec_double_round :: "u32 list \<Rightarrow> u32 list" where
  "spec_double_round st = fold spec_quarter_at (spec_columns @ spec_diagonals) st"

definition spec_bytes_le :: "u32 \<Rightarrow> u8 list" where
  "spec_bytes_le w = map (\<lambda>i. word_of_nat (unat w div 256 ^ i mod 256)) [0..<4]"

definition spec_block :: "u8 list \<Rightarrow> nat \<Rightarrow> u8 list \<Rightarrow> u8 list" where
  "spec_block key blockCounter nonce =
     (let s0 = spec_init key blockCounter nonce;
          s = (spec_double_round ^^ 10) s0
      in concat (map spec_bytes_le (map2 (+) s s0)))"

text \<open>
  The reference block: the first 64 keystream bytes of ChaCha20 for the all-zero key, the
  all-zero nonce and block counter 0.
\<close>

definition referenceBlock :: "u8 list" where
  "referenceBlock =
     [0x76, 0xb8, 0xe0, 0xad, 0xa0, 0xf1, 0x3d, 0x90, 0x40, 0x5d, 0x6a, 0xe5, 0x53, 0x86, 0xbd, 0x28,
      0xbd, 0xd2, 0x19, 0xb8, 0xa0, 0x8d, 0xed, 0x1a, 0xa8, 0x36, 0xef, 0xcc, 0x8b, 0x77, 0x0d, 0xc7,
      0xda, 0x41, 0x59, 0x7c, 0x51, 0x57, 0x48, 0x8d, 0x77, 0x24, 0xe0, 0x3f, 0xb8, 0xd8, 0x4a, 0x37,
      0x6a, 0x43, 0xb8, 0xf4, 0x15, 0x18, 0xa1, 0x1c, 0xc3, 0x87, 0xb6, 0x69, 0xb2, 0xee, 0x65, 0x86]"

section \<open>Auxiliary notions\<close>

text \<open>The keystream byte at position \<open>j\<close>: byte \<open>j mod 64\<close> of block \<open>j div 64\<close>.\<close>

definition keystreamByte :: "u8 list \<Rightarrow> u8 list \<Rightarrow> nat \<Rightarrow> u8" where
  "keystreamByte k n j = byteAt (chacha20Block k (j div 64) n) (j mod 64)"

text \<open>The two hex digits that \<open>bytesToHex\<close> writes for one byte.\<close>

definition hexByte :: "u8 \<Rightarrow> string" where
  "hexByte b = padStart 2 CHR ''0'' (toString16 (unat b))"

text \<open>Example principals and a library that accepts every input proof, for concrete runs.\<close>

definition alice :: address where
  "alice = 0xA11CE"

definition bob :: address where
  "bob = 0xB0B"

definition acceptingLib :: fhe where
  "acceptingLib = \<lparr>fromExternal = (\<lambda>handle inputProof sender. Some handle), thisAddress = 0xC0DE\<rparr>"

text \<open>The fields of a report that are set at creation.\<close>

definition createdFields :: "report \<Rightarrow> address \<times> string \<times> u8 list \<times> eaddress \<times> 64 word" where
  "createdFields r = (reporter r, title r, encryptedData r, encryptedKey r, createdAt r)"

text \<open>The ids of the reports of a principal, in increasing order.\<close>

definition idsOf :: "report list \<Rightarrow> address \<Rightarrow> nat list" where
  "idsOf rs p = filter (\<lambda>rid. reporter (rs ! rid) = p) [0..<length rs]"

text \<open>The index of every principal agrees with the reports.\<close>

definition indexed :: "state \<Rightarrow> bool" where
  "indexed s = (\<forall>p. reportsByReporter s p = idsOf (reports s) p)"

text \<open>The ledger after one report of \<open>alice\<close>.\<close>

definition oneReport :: state where
  "oneReport = run acceptingLib initial [Tx alice 1000 (SubmitReport ''T'' [1, 2, 3] 5 [7])]"

text \<open>
  The canonical text of an address-shaped string, \<open>0x\<close> and the lowercase digit of each
  hex digit's value, and the bytes of a text taken character by character.
\<close>

definition lowerHexText :: "string \<Rightarrow> string" where
  "lowerHexText s = ''0x'' @ map (\<lambda>c. hexDigit (the (digitValue c))) (drop 2 s)"

definition asciiBytes :: "string \<Rightarrow> u8 list" where
  "asciiBytes s = map (\<lambda>c. word_of_nat (of_char c)) s"

text \<open>A byte array cut or zero-padded to \<open>n\<close> bytes.\<close>

definition padTo :: "nat \<Rightarrow> u8 list \<Rightarrow> u8 list" where
  "padTo n x = take n x @ replicate (n - length x) 0"

section \<open>Properties of the stream cipher\<close>

lemma xorLoop_length: "length (xorLoop pt b pos bs i ct) = length ct"
  by (induction pt b pos bs i ct rule: xorLoop.induct) (subst xorLoop.simps, simp)

lemma xorLoop_nth:
  "j < length ct \<Longrightarrow>
   xorLoop pt b pos bs i ct ! j =
     (if pos + i \<le> j \<and> j < pos + bs then byteAt pt j XOR byteAt b (j - pos) else ct ! j)"
proof (induction pt b pos bs i ct rule: xorLoop.induct)
  case (1 pt b pos bs i ct)
  show ?case
  proof (cases "i < bs")
    case True
    have "xorLoop pt b pos bs i ct ! j =
          xorLoop pt b pos bs (i + 1) (ct[pos + i := byteAt pt (pos + i) XOR byteAt b i]) ! j"
      using True by (subst xorLoop.simps) simp
    also have "\<dots> = (if pos + (i + 1) \<le> j \<and> j < pos + bs then byteAt pt j XOR byteAt b (j - pos)
                     else ct[pos + i := byteAt pt (pos + i) XOR byteAt b i] ! j)"
      using "1.IH" [OF True] "1.prems" by simp
    also have "\<dots> = (if pos + i \<le> j \<and> j < pos + bs then byteAt pt j XOR byteAt b (j - pos) else ct ! j)"
    proof (cases "j = pos + i")
      case True
      then show ?thesis using \<open>i < bs\<close> "1.prems" by simp
    next
      case False
      then show ?thesis using "1.prems" by auto
    qed
    finally show ?thesis .
  next
    case False
    then show ?thesis by (subst xorLoop.simps) auto
  qed
qed

lemma encryptLoop_length: "length (encryptLoop k n pt pos c ct) = length ct"
  by (induction k n pt pos c ct rule: encryptLoop.induct)
     (subst encryptLoop.simps, simp add: Let_def xorLoop_length)

lemma encryptLoop_nth:
  "length ct = length pt \<Longrightarrow> j < length pt \<Longrightarrow>
   encryptLoop k n pt pos c ct ! j =
     (if pos \<le> j
      then pt ! j XOR byteAt (chacha20Block k (c + (j - pos) div 64) n) ((j - pos) mod 64)
      else ct ! j)"
proof (induction k n pt pos c ct rule: encryptLoop.induct)
  case (1 k n pt pos c ct)
  show ?case
  proof (cases "pos < length pt")
    case True
    define bs where "bs = min 64 (length pt - pos)"
    define ct' where "ct' = xorLoop pt (chacha20Block k c n) pos bs 0 ct"
    have len: "length ct' = length pt"
      by (simp add: ct'_def xorLoop_length "1.prems")
    have unfold: "encryptLoop k n pt pos c ct = encryptLoop k n pt (pos + bs) (c + 1) ct'"
      using True by (subst encryptLoop.simps) (simp add: Let_def bs_def ct'_def)
    have IH: "encryptLoop k n pt (pos + bs) (c + 1) ct' ! j =
          (if pos + bs \<le> j
           then pt ! j XOR byteAt (chacha20Block k (c + 1 + (j - (pos + bs)) div 64) n) ((j - (pos + bs)) mod 64)
           else ct' ! j)"
      using "1.IH" [OF True refl refl refl, folded bs_def ct'_def, OF len "1.prems"(2)] by (simp add: bs_def)
    have here: "ct' ! j = (if pos \<le> j \<and> j < pos + bs then byteAt pt j XOR byteAt (chacha20Block k c n) (j - pos) else ct ! j)"
      using xorLoop_nth [of j ct pt "chacha20Block k c n" pos bs 0] "1.prems" by (simp add: ct'_def)
    show ?thesis
    proof (cases "pos + bs \<le> j")
      case far: True
      then have bs64: "bs = 64" using "1.prems" by (auto simp: bs_def min_def split: if_splits)
      have "64 \<le> j - pos" using far bs64 by simp
      then have "(j - pos) div 64 = Suc ((j - pos - 64) div 64)" "(j - pos) mod 64 = (j - pos - 64) mod 64"
        by (simp_all add: le_div_geq le_mod_geq)
      moreover have "j - pos - 64 = j - (pos + 64)" by simp
      ultimately have "(j - pos) div 64 = 1 + (j - (pos + 64)) div 64" "(j - pos) mod 64 = (j - (pos + 64)) mod 64"
        by simp_all
      then show ?thesis using far bs64 unfold IH by simp
    next
      case near: False
      then have "j - pos < 64" by (auto simp: bs_def)
      then show ?thesis using near unfold IH here "1.prems" by (auto simp: byteAt_def)
    qed
  next
    case False
    then show ?thesis using "1.prems" by (subst encryptLoop.simps) auto
  qed
qed

lemma chacha20Encrypt_length: "length (chacha20Encrypt k n pt) = length pt"
  by (simp add: chacha20Encrypt_def encryptLoop_length)

lemma chacha20Encrypt_nth:
  "j < length pt \<Longrightarrow> chacha20Encrypt k n pt ! j = pt ! j XOR keystreamByte k n j"
  by (simp add: chacha20Encrypt_def encryptLoop_nth keystreamByte_def)

text \<open>
  Claim C1. Applying the stream cipher twice with the same key and nonce gives the input
  back, and the output of one application has exactly the length of its input. This holds
  for every key, nonce and data, so in particular for 32-byte keys, 12-byte nonces and data
  of length 0, 1, 63, 64, 65 and 1000.
\<close>

theorem chacha20Encrypt_roundtrip:
  "chacha20Encrypt key nonce (chacha20Encrypt key nonce data) = data
   \<and> length (chacha20Encrypt key nonce data) = length data"
proof
  show "chacha20Encrypt key nonce (chacha20Encrypt key nonce data) = data"
  proof (rule nth_equalityI)
    show "length (chacha20Encrypt key nonce (chacha20Encrypt key nonce data)) = length data"
      by (simp add: chacha20Encrypt_length)
  next
    fix j assume "j < length (chacha20Encrypt key nonce (chacha20Encrypt key nonce data))"
    then have j: "j < length data" by (simp add: chacha20Encrypt_length)
    then show "chacha20Encrypt key nonce (chacha20Encrypt key nonce data) ! j = data ! j"
      by (simp add: chacha20Encrypt_nth chacha20Encrypt_length xor.assoc)
  qed
  show "length (chacha20Encrypt key nonce data) = length data"
    by (rule chacha20Encrypt_length)
qed

section \<open>Properties of the hex conversion and the key derivation\<close>

lemma lt16_cases:
  "d < 16 \<Longrightarrow> d \<in> {0, 1, 2, 3, 4, 5, 6, 7, 8, 9, 10, 11, 12, 13, 14, 15 :: nat}"
  by simp arith

lemma hexDigit_props:
  assumes "d < 16"
  shows "digitValue (hexDigit d) = Some d"
    and "\<not> isWhiteSpace (hexDigit d)"
    and "hexDigit d \<noteq> CHR ''-''" and "hexDigit d \<noteq> CHR ''+''"
    and "hexDigit d \<noteq> CHR ''x''" and "hexDigit d \<noteq> CHR ''X''"
  using lt16_cases [OF assms]
  by (auto simp: hexDigit_def digitValue_def isWhiteSpace_def Let_def)

lemma toString16_byte:
  "n < 256 \<Longrightarrow> padStart 2 CHR ''0'' (toString16 n) = [hexDigit (n div 16), hexDigit (n mod 16)]"
proof -
  assume n: "n < 256"
  show ?thesis
  proof (cases "n < 16")
    case True
    then show ?thesis
      by (simp add: toString16.simps [of n] padStart_def hexDigit_def)
  next
    case False
    then have "n div 16 < 16" using n by simp
    then show ?thesis using False
      by (simp add: toString16.simps [of n] toString16.simps [of "n div 16"] padStart_def)
  qed
qed

lemma parseInt16_two_digits:
  assumes "a < 16" "b < 16"
  shows "parseInt16 [hexDigit a, hexDigit b] = Some (int (16 * a + b))"
  using hexDigit_props [OF assms(1)] hexDigit_props [OF assms(2)]
  by (simp add: parseInt16_def Let_def isHexDigit_def digitsValue_def)

lemma hexByte_length: "length (hexByte b) = 2"
proof -
  have "unat b < 256" using unsigned_less [of b, where ?'a = nat] by simp
  then show ?thesis by (simp add: hexByte_def toString16_byte)
qed

lemma decode_hexByte: "toUint8 (parseInt16 (hexByte b)) = b"
proof -
  have lt: "unat b < 256" using unsigned_less [of b, where ?'a = nat] by simp
  then have "unat b div 16 < 16" "unat b mod 16 < 16" by simp_all
  then have "parseInt16 (hexByte b) = Some (int (16 * (unat b div 16) + unat b mod 16))"
    using lt by (simp add: hexByte_def toString16_byte parseInt16_two_digits)
  also have "16 * (unat b div 16) + unat b mod 16 = unat b" by simp
  finally show ?thesis by (simp add: toUint8_def)
qed

lemma chunk_of_concat:
  "i < length bs \<Longrightarrow> take 2 (drop (i * 2) (concat (map hexByte bs))) = hexByte (bs ! i)"
proof (induction bs arbitrary: i)
  case Nil
  then show ?case by simp
next
  case (Cons b bs)
  show ?case
  proof (cases i)
    case 0
    then show ?thesis by (simp add: hexByte_length)
  next
    case (Suc k)
    then show ?thesis using Cons by (simp add: hexByte_length)
  qed
qed

lemma length_concat_hexByte: "length (concat (map hexByte bs)) = 2 * length bs"
  by (induction bs) (simp_all add: hexByte_length)

lemma bytesToHex_alt: "bytesToHex bs = ''0x'' @ concat (map hexByte bs)"
  by (simp add: bytesToHex_def hexByte_def [abs_def])

lemma hexDigit_mem: "d < 16 \<Longrightarrow> hexDigit d \<in> set ''0123456789abcdef''"
proof -
  assume "d < 16"
  then have "d < length ''0123456789abcdef''" by simp
  then show ?thesis unfolding hexDigit_def by (rule nth_mem)
qed

lemma bytesToHex_digits: "set (concat (map hexByte bs)) \<subseteq> set ''0123456789abcdef''"
proof -
  define D where "D = set ''0123456789abcdef''"
  have "set (hexByte b) \<subseteq> D" for b
  proof -
    have lt: "unat b < 256" using unsigned_less [of b, where ?'a = nat] by simp
    then have "unat b div 16 < 16" "unat b mod 16 < 16" by simp_all
    then have "hexDigit (unat b div 16) \<in> D" "hexDigit (unat b mod 16) \<in> D"
      unfolding D_def by (simp_all only: hexDigit_mem)
    then show ?thesis using lt by (simp add: hexByte_def toString16_byte)
  qed
  then have "set (concat (map hexByte bs)) \<subseteq> D" by auto
  then show ?thesis by (simp only: D_def)
qed

text \<open>
  Claim C10. Decoding the hex text of a byte array gives the byte array back. The text is
  \<open>0x\<close> followed by two lowercase hex digits per byte.
\<close>

theorem hexToBytes_bytesToHex:
  "hexToBytes (bytesToHex b) = b
   \<and> take 2 (bytesToHex b) = ''0x''
   \<and> length (bytesToHex b) = 2 + 2 * length b
   \<and> set (drop 2 (bytesToHex b)) \<subseteq> set ''0123456789abcdef''"
proof -
  have "hexToBytes (bytesToHex b) =
        map (\<lambda>i. toUint8 (parseInt16 (take 2 (drop (i * 2) (concat (map hexByte b)))))) [0..<length b]"
    by (simp add: hexToBytes_def bytesToHex_alt slice_def length_concat_hexByte)
  also have "\<dots> = map (\<lambda>i. b ! i) [0..<length b]"
    by (rule map_cong) (simp_all add: chunk_of_concat decode_hexByte)
  also have "\<dots> = b" by (rule map_nth)
  finally have "hexToBytes (bytesToHex b) = b" .
  moreover have "take 2 (bytesToHex b) = ''0x''"
    by (simp add: bytesToHex_alt)
  moreover have "length (bytesToHex b) = 2 + 2 * length b"
    by (simp add: bytesToHex_alt length_concat_hexByte)
  moreover have "drop 2 (bytesToHex b) = concat (map hexByte b)"
    by (simp add: bytesToHex_alt)
  then have "set (drop 2 (bytesToHex b)) \<subseteq> set ''0123456789abcdef''"
    using bytesToHex_digits [of b] by (simp only:)
  ultimately show ?thesis by blast
qed

lemma lowerChar_idem: "lowerChar (lowerChar c) = lowerChar c"
proof -
  define k where "k = (of_char c :: nat)"
  have k: "k < 256" by (simp add: k_def)
  show ?thesis
  proof (cases "(65 \<le> k \<and> k \<le> 90) \<or> (192 \<le> k \<and> k \<le> 222 \<and> k \<noteq> 215)")
    case True
    then have l: "lowerChar c = char_of (k + 32)"
      by (simp add: lowerChar_def Let_def k_def)
    have "of_char (char_of (k + 32)) = k + 32"
      using True by (simp only: of_char_of) auto
    then have "lowerChar (char_of (k + 32)) = char_of (k + 32)"
      using True by (simp add: lowerChar_def Let_def del: of_char_of) arith
    then show ?thesis by (simp only: l)
  next
    case False
    then have "lowerChar c = c"
      by (auto simp: lowerChar_def Let_def k_def)
    then show ?thesis by simp
  qed
qed

lemma toLowerCase_idem: "toLowerCase (toLowerCase s) = toLowerCase s"
  by (simp add: toLowerCase_def lowerChar_idem)

lemma deriveKey_bytes:
  assumes "32 \<le> length (H (toUtf8Bytes (toLowerCase addr)))"
  shows "deriveKeyFromPasswordAddress H addr = take 32 (H (toUtf8Bytes (toLowerCase addr)))"
proof -
  define d where "d = H (toUtf8Bytes (toLowerCase addr))"
  have len: "32 \<le> length d" using assms by (simp add: d_def)
  have "deriveKeyFromPasswordAddress H addr =
        map (\<lambda>i. toUint8 (parseInt16 (take 2 (drop (i * 2) (concat (map hexByte d)))))) [0..<32]"
    by (simp add: deriveKeyFromPasswordAddress_def keccak256_def bytesToHex_alt slice_def d_def
          add.commute)
  also have "\<dots> = map (\<lambda>i. d ! i) [0..<32]"
    using len by (intro map_cong refl) (simp add: chunk_of_concat decode_hexByte)
  also have "\<dots> = take 32 d"
    using len by (intro nth_equalityI) simp_all
  finally show ?thesis by (simp add: d_def)
qed

lemma of_char_hexDigit:
  "d < 16 \<Longrightarrow> (of_char (hexDigit d) :: nat) = (if d < 10 then 48 + d else 87 + d)"
  using lt16_cases [of d] by (auto simp: hexDigit_def)

lemma hexDigit_value:
  assumes "isHexDigit c"
  shows "the (digitValue c) < 16"
  using assms by (auto simp: isHexDigit_def digitValue_def Let_def split: if_splits)

lemma lowerChar_hex:
  assumes "isHexDigit c"
  shows "lowerChar c = hexDigit (the (digitValue c))"
proof (rule of_char_eqI [where ?'a = nat])
  define k where "k = (of_char c :: nat)"
  have r: "(48 \<le> k \<and> k \<le> 57) \<or> (97 \<le> k \<and> k \<le> 102) \<or> (65 \<le> k \<and> k \<le> 70)"
    using assms by (auto simp: isHexDigit_def digitValue_def Let_def k_def split: if_splits)
  have d16: "the (digitValue c) < 16" using assms by (rule hexDigit_value)
  consider (digit) "48 \<le> k \<and> k \<le> 57" | (lower) "97 \<le> k \<and> k \<le> 102" | (upper) "65 \<le> k \<and> k \<le> 70"
    using r by blast
  then show "(of_char (lowerChar c) :: nat) = of_char (hexDigit (the (digitValue c)))"
  proof cases
    case digit
    then have "digitValue c = Some (k - 48)" "lowerChar c = c"
      by (simp_all add: digitValue_def lowerChar_def Let_def k_def)
    then show ?thesis using digit d16 by (auto simp: of_char_hexDigit k_def)
  next
    case lower
    then have "digitValue c = Some (k - 87)" "lowerChar c = c"
      by (simp_all add: digitValue_def lowerChar_def Let_def k_def)
    then show ?thesis using lower d16 by (auto simp: of_char_hexDigit k_def)
  next
    case upper
    then have dv: "digitValue c = Some (k - 55)" and lc: "lowerChar c = char_of (k + 32)"
      by (simp_all add: digitValue_def lowerChar_def Let_def k_def)
    have "(of_char (char_of (k + 32)) :: nat) = k + 32"
      using upper by (simp only: of_char_of) auto
    then show ?thesis using upper d16 dv lc by (auto simp: of_char_hexDigit simp del: of_char_of)
  qed
qed

lemma toLowerCase_address:
  assumes "addressShaped addr"
  shows "toLowerCase addr = lowerHexText addr"
proof -
  have split: "addr = ''0x'' @ drop 2 addr"
    using assms append_take_drop_id [of 2 addr] by (simp add: addressShaped_def)
  have hex: "\<forall>c \<in> set (drop 2 addr). isHexDigit c"
    using assms by (simp add: addressShaped_def list_all_iff)
  have "toLowerCase addr = toLowerCase ''0x'' @ map lowerChar (drop 2 addr)"
    by (subst split) (simp add: toLowerCase_def)
  also have "toLowerCase ''0x'' = ''0x''"
    by (simp add: toLowerCase_def lowerChar_def)
  also have "map lowerChar (drop 2 addr) = map (\<lambda>c. hexDigit (the (digitValue c))) (drop 2 addr)"
    using hex by (intro map_cong refl) (simp add: lowerChar_hex)
  finally show ?thesis by (simp add: lowerHexText_def)
qed

lemma utf8Char_hexDigit: "d < 16 \<Longrightarrow> utf8Char (hexDigit d) = [word_of_nat (of_char (hexDigit d))]"
  by (simp add: utf8Char_def Let_def of_char_hexDigit)

lemma toUtf8Bytes_lowerHexText:
  assumes "addressShaped addr"
  shows "toUtf8Bytes (lowerHexText addr) = asciiBytes (lowerHexText addr)"
proof -
  have hex: "\<forall>c \<in> set (drop 2 addr). the (digitValue c) < 16"
    using assms by (simp add: addressShaped_def list_all_iff hexDigit_value)
  have "concat (map utf8Char (map (\<lambda>c. hexDigit (the (digitValue c))) xs))
        = map (\<lambda>c. word_of_nat (of_char c)) (map (\<lambda>c. hexDigit (the (digitValue c))) xs)"
    if "\<forall>c \<in> set xs. the (digitValue c) < 16" for xs
    using that by (induction xs) (simp_all add: utf8Char_hexDigit)
  from this [OF hex] show ?thesis
    by (simp add: toUtf8Bytes_def asciiBytes_def lowerHexText_def utf8Char_def)
qed

lemma lowerHexText_same_digits:
  "map digitValue (drop 2 other) = map digitValue (drop 2 addr) \<Longrightarrow>
   lowerHexText other = lowerHexText addr"
proof -
  assume eq: "map digitValue (drop 2 other) = map digitValue (drop 2 addr)"
  have "map (\<lambda>c. hexDigit (the (digitValue c))) xs = map (\<lambda>v. hexDigit (the v)) (map digitValue xs)" for xs
    by simp
  then show ?thesis using eq by (simp only: lowerHexText_def)
qed

text \<open>
  Claim C7. For an address-shaped string and a 32-byte digest function, the derived key
  is the same for the string and for its lowercase form, and for any other string with
  the same lowercase form; it has 32 bytes and is the first 32 bytes of the digest of the
  UTF-8 text of the lowercase string. Two address-shaped strings that spell the same hex
  digits in any mix of cases have the same key. The lowercase form is \<open>0x\<close> followed by
  the lowercase digit of each hex digit, its UTF-8 text is one byte per character, the
  character's code, and the key is the first 32 bytes of the digest of these bytes. The key
  is a function of the string and the digest function alone, so repeated calls give the
  same key.
\<close>

theorem deriveKey_case_invariant:
  assumes "addressShaped addr" and "\<forall>bytes. length (H bytes) = 32"
  shows "deriveKeyFromPasswordAddress H addr = deriveKeyFromPasswordAddress H (toLowerCase addr)
         \<and> (\<forall>other. toLowerCase other = toLowerCase addr \<longrightarrow>
               deriveKeyFromPasswordAddress H other = deriveKeyFromPasswordAddress H addr)
         \<and> length (deriveKeyFromPasswordAddress H addr) = 32
         \<and> deriveKeyFromPasswordAddress H addr = take 32 (H (toUtf8Bytes (toLowerCase addr)))
         \<and> (\<forall>other. addressShaped other
                 \<and> map digitValue (drop 2 other) = map digitValue (drop 2 addr) \<longrightarrow>
               deriveKeyFromPasswordAddress H other = deriveKeyFromPasswordAddress H addr)
         \<and> toLowerCase addr = lowerHexText addr
         \<and> toUtf8Bytes (toLowerCase addr) = asciiBytes (lowerHexText addr)
         \<and> deriveKeyFromPasswordAddress H addr = take 32 (H (asciiBytes (lowerHexText addr)))"
proof -
  have key: "deriveKeyFromPasswordAddress H a = take 32 (H (toUtf8Bytes (toLowerCase a)))" for a
    using assms(2) by (simp add: deriveKey_bytes)
  have c1: "deriveKeyFromPasswordAddress H addr = deriveKeyFromPasswordAddress H (toLowerCase addr)"
    by (simp add: key toLowerCase_idem)
  have c2: "\<forall>other. toLowerCase other = toLowerCase addr \<longrightarrow>
      deriveKeyFromPasswordAddress H other = deriveKeyFromPasswordAddress H addr"
    by (simp add: key)
  have c3: "length (deriveKeyFromPasswordAddress H addr) = 32"
    using assms(2) by (simp add: key)
  have c6: "toLowerCase addr = lowerHexText addr"
    using assms(1) by (rule toLowerCase_address)
  have c7: "toUtf8Bytes (toLowerCase addr) = asciiBytes (lowerHexText addr)"
    using toUtf8Bytes_lowerHexText [OF assms(1)] by (simp only: c6)
  have c5: "\<forall>other. addressShaped other
        \<and> map digitValue (drop 2 other) = map digitValue (drop 2 addr) \<longrightarrow>
      deriveKeyFromPasswordAddress H other = deriveKeyFromPasswordAddress H addr"
  proof (intro allI impI)
    fix other
    assume o: "addressShaped other \<and> map digitValue (drop 2 other) = map digitValue (drop 2 addr)"
    from o have "toLowerCase other = lowerHexText other"
      by (intro toLowerCase_address) (rule conjunct1)
    also from o have "\<dots> = lowerHexText addr"
      by (intro lowerHexText_same_digits) (rule conjunct2)
    finally have "toLowerCase other = toLowerCase addr" by (simp only: c6)
    then show "deriveKeyFromPasswordAddress H other = deriveKeyFromPasswordAddress H addr"
      by (simp add: key)
  qed
  have c8: "deriveKeyFromPasswordAddress H addr = take 32 (H (asciiBytes (lowerHexText addr)))"
    using key [of addr] by (simp only: c7)
  show ?thesis
    by (intro conjI c1 c2 c3 key c5 c6 c7 c8)
qed

theorem deriveKey_case_invariant_witness:
  "addressShaped ''0xABCDEF1234567890ABCDEF1234567890ABCDEF12''
   \<and> (\<forall>bytes. length (take 32 (bytes @ replicate 32 (0 :: u8))) = 32)
   \<and> deriveKeyFromPasswordAddress (\<lambda>bytes. take 32 (bytes @ replicate 32 0))
        ''0xABCDEF1234567890ABCDEF1234567890ABCDEF12''
     = deriveKeyFromPasswordAddress (\<lambda>bytes. take 32 (bytes @ replicate 32 0))
        (toLowerCase ''0xABCDEF1234567890ABCDEF1234567890ABCDEF12'')
   \<and> length (deriveKeyFromPasswordAddress (\<lambda>bytes. take 32 (bytes @ replicate 32 0))
        ''0xABCDEF1234567890ABCDEF1234567890ABCDEF12'') = 32
   \<and> addressShaped ''0xabcdef1234567890abCDef1234567890abcdef12''
   \<and> deriveKeyFromPasswordAddress (\<lambda>bytes. take 32 (bytes @ replicate 32 0))
        ''0xabcdef1234567890abCDef1234567890abcdef12''
     = deriveKeyFromPasswordAddress (\<lambda>bytes. take 32 (bytes @ replicate 32 0))
        ''0xABCDEF1234567890ABCDEF1234567890ABCDEF12''
   \<and> toLowerCase ''0xABCDEF1234567890ABCDEF1234567890ABCDEF12''
     = ''0xabcdef1234567890abcdef1234567890abcdef12''
   \<and> toUtf8Bytes ''0xabcdef1234567890abcdef1234567890abcdef12''
     = [48, 120, 97, 98, 99, 100, 101, 102, 49, 50, 51, 52, 53, 54, 55, 56, 57, 48,
        97, 98, 99, 100, 101, 102, 49, 50, 51, 52, 53, 54, 55, 56, 57, 48,
        97, 98, 99, 100, 101, 102, 49, 50]
   \<and> deriveKeyFromPasswordAddress (\<lambda>bytes. take 32 (bytes @ replicate 32 0))
        ''0xABCDEF1234567890ABCDEF1234567890ABCDEF12''
     = [48, 120, 97, 98, 99, 100, 101, 102, 49, 50, 51, 52, 53, 54, 55, 56, 57, 48,
        97, 98, 99, 100, 101, 102, 49, 50, 51, 52, 53, 54, 55, 56]"
proof -
  define H0 :: "u8 list \<Rightarrow> u8 list" where "H0 = (\<lambda>bytes. take 32 (bytes @ replicate 32 0))"
  have h1: "addressShaped ''0xABCDEF1234567890ABCDEF1234567890ABCDEF12''"
    by (simp add: addressShaped_def isHexDigit_def digitValue_def)
  have h1': "addressShaped ''0xabcdef1234567890abCDef1234567890abcdef12''"
    by (simp add: addressShaped_def isHexDigit_def digitValue_def)
  have h2: "\<forall>bytes. length (H0 bytes) = 32"
    by (auto simp: H0_def)
  have same: "map digitValue (drop 2 ''0xabcdef1234567890abCDef1234567890abcdef12'')
      = map digitValue (drop 2 ''0xABCDEF1234567890ABCDEF1234567890ABCDEF12'')"
    by (simp add: digitValue_def)
  have canon: "lowerHexText ''0xABCDEF1234567890ABCDEF1234567890ABCDEF12''
      = ''0xabcdef1234567890abcdef1234567890abcdef12''"
    by (simp add: lowerHexText_def digitValue_def hexDigit_def)
  have bytes: "asciiBytes ''0xabcdef1234567890abcdef1234567890abcdef12''
      = [48, 120, 97, 98, 99, 100, 101, 102, 49, 50, 51, 52, 53, 54, 55, 56, 57, 48,
         97, 98, 99, 100, 101, 102, 49, 50, 51, 52, 53, 54, 55, 56, 57, 48,
         97, 98, 99, 100, 101, 102, 49, 50]"
    by (simp add: asciiBytes_def)
  have h2': "\<forall>bytes. length (take 32 (bytes @ replicate 32 (0 :: u8))) = 32"
    by auto
  note t = deriveKey_case_invariant [OF h1 h2]
  note c1 = t [THEN conjunct1]
  note c3 = t [THEN conjunct2, THEN conjunct2, THEN conjunct1]
  note c5 = t [THEN conjunct2, THEN conjunct2, THEN conjunct2, THEN conjunct2, THEN conjunct1]
  note c6 = t [THEN conjunct2, THEN conjunct2, THEN conjunct2, THEN conjunct2, THEN conjunct2,
      THEN conjunct1]
  note c7 = t [THEN conjunct2, THEN conjunct2, THEN conjunct2, THEN conjunct2, THEN conjunct2,
      THEN conjunct2, THEN conjunct1]
  note c8 = t [THEN conjunct2, THEN conjunct2, THEN conjunct2, THEN conjunct2, THEN conjunct2,
      THEN conjunct2, THEN conjunct2]
  have low: "toLowerCase ''0xABCDEF1234567890ABCDEF1234567890ABCDEF12''
      = ''0xabcdef1234567890abcdef1234567890abcdef12''"
    using c6 by (simp only: canon)
  have utf: "toUtf8Bytes ''0xabcdef1234567890abcdef1234567890abcdef12''
      = [48, 120, 97, 98, 99, 100, 101, 102, 49, 50, 51, 52, 53, 54, 55, 56, 57, 48,
         97, 98, 99, 100, 101, 102, 49, 50, 51, 52, 53, 54, 55, 56, 57, 48,
         97, 98, 99, 100, 101, 102, 49, 50]"
    using c7 by (simp only: low canon bytes)
  have "take 32 (H0 (asciiBytes (lowerHexText ''0xABCDEF1234567890ABCDEF1234567890ABCDEF12'')))
      = [48, 120, 97, 98, 99, 100, 101, 102, 49, 50, 51, 52, 53, 54, 55, 56, 57, 48,
        97, 98, 99, 100, 101, 102, 49, 50, 51, 52, 53, 54, 55, 56]"
    by (simp only: canon bytes H0_def) simp
  then have keyval: "deriveKeyFromPasswordAddress H0 ''0xABCDEF1234567890ABCDEF1234567890ABCDEF12''
      = [48, 120, 97, 98, 99, 100, 101, 102, 49, 50, 51, 52, 53, 54, 55, 56, 57, 48,
        97, 98, 99, 100, 101, 102, 49, 50, 51, 52, 53, 54, 55, 56]"
    by (simp only: c8)
  have mixed: "deriveKeyFromPasswordAddress H0 ''0xabcdef1234567890abCDef1234567890abcdef12''
      = deriveKeyFromPasswordAddress H0 ''0xABCDEF1234567890ABCDEF1234567890ABCDEF12''"
    by (rule c5 [THEN spec, THEN mp, OF conjI [OF h1' same]])
  show ?thesis
    unfolding H0_def [symmetric]
    by (intro conjI h1 h1' h2' c1 c3 mixed low utf keyval)
qed

section \<open>Properties of the ledger\<close>

lemma submitReport_cases:
  "submitReport lib sender ts t d k ip s = Inl ProofRejected \<and> fromExternal lib k ip sender = None
   \<or> (\<exists>key. fromExternal lib k ip sender = Some key \<and>
        submitReport lib sender ts t d k ip s =
          Inr \<lparr>reports = reports s @ [\<lparr>reporter = sender, title = t, encryptedData = d,
                                       encryptedKey = key, createdAt = word_of_nat ts, status = Pending\<rparr>],
               reportsByReporter = (reportsByReporter s)(sender := reportsByReporter s sender @ [length (reports s)]),
               grants = grants s @ [(key, thisAddress lib), (key, sender)],
               events = events s @ [ReportSubmitted (length (reports s)) sender t (word_of_nat ts)]\<rparr>)"
  by (cases "fromExternal lib k ip sender") (simp_all add: submitReport_def Let_def)

lemma submitReport_reports:
  assumes "submitReport lib sender ts t d k ip s = Inr s'"
  shows "\<exists>key. reports s' = reports s @ [\<lparr>reporter = sender, title = t, encryptedData = d,
                      encryptedKey = key, createdAt = word_of_nat ts, status = Pending\<rparr>]"
    and "reportsByReporter s' = (reportsByReporter s)(sender := reportsByReporter s sender @ [length (reports s)])"
  using assms submitReport_cases [of lib sender ts t d k ip s] by auto

lemma updateReportStatus_Inr:
  assumes "updateReportStatus sender rid st s = Inr s'"
  shows "rid < length (reports s)" and "reporter (reports s ! rid) = sender"
    and "reports s' = (reports s)[rid := (reports s ! rid)\<lparr>status := st\<rparr>]"
    and "reportsByReporter s' = reportsByReporter s"
  using assms by (auto simp: updateReportStatus_def split: if_splits)

lemma idsOf_snoc:
  "idsOf (rs @ [r]) p = idsOf rs p @ (if reporter r = p then [length rs] else [])"
proof -
  have "filter (\<lambda>rid. reporter ((rs @ [r]) ! rid) = p) [0..<length rs]
        = filter (\<lambda>rid. reporter (rs ! rid) = p) [0..<length rs]"
    by (rule filter_cong) (simp_all add: nth_append)
  then show ?thesis by (simp add: idsOf_def)
qed

lemma idsOf_update_status:
  "rid < length rs \<Longrightarrow> idsOf (rs[rid := (rs ! rid)\<lparr>status := st\<rparr>]) p = idsOf rs p"
  unfolding idsOf_def
  by (simp, rule filter_cong) (auto simp: nth_list_update)

lemma indexed_exec: "indexed s \<Longrightarrow> indexed (exec lib s t)"
proof -
  assume inv: "indexed s"
  obtain sender ts c where t: "t = Tx sender ts c" by (cases t)
  show ?thesis
  proof (cases "perform lib s t")
    case (Inl e)
    then show ?thesis using inv by (simp add: exec_def)
  next
    case (Inr s')
    then have ex: "exec lib s t = s'" by (simp add: exec_def)
    show ?thesis
    proof (cases c)
      case (SubmitReport tt d k ip)
      then have "submitReport lib sender ts tt d k ip s = Inr s'" using Inr t by simp
      from submitReport_reports [OF this] inv show ?thesis
        unfolding ex indexed_def by (auto simp: idsOf_snoc)
    next
      case (UpdateReportStatus rid st)
      then have "updateReportStatus sender rid st s = Inr s'" using Inr t by simp
      from updateReportStatus_Inr [OF this] inv show ?thesis
        unfolding ex indexed_def by (simp add: idsOf_update_status)
    qed
  qed
qed

lemma indexed_run: "indexed s \<Longrightarrow> indexed (run lib s txs)"
  by (induction txs arbitrary: s) (simp_all add: indexed_exec)

lemma length_exec:
  "length (reports (exec lib s t)) =
     length (reports s) + (if isSubmit t \<and> succeeds (perform lib s t) then 1 else 0)"
proof -
  obtain sender ts c where t: "t = Tx sender ts c" by (cases t)
  show ?thesis
  proof (cases "perform lib s t")
    case (Inl e)
    then show ?thesis by (simp add: exec_def succeeds_def)
  next
    case (Inr s')
    show ?thesis
    proof (cases c)
      case (SubmitReport tt d k ip)
      then have "submitReport lib sender ts tt d k ip s = Inr s'" using Inr t by simp
      from submitReport_reports(1) [OF this] show ?thesis
        using Inr t SubmitReport by (auto simp: exec_def succeeds_def)
    next
      case (UpdateReportStatus rid st)
      then have "updateReportStatus sender rid st s = Inr s'" using Inr t by simp
      from updateReportStatus_Inr [OF this] show ?thesis
        using Inr t UpdateReportStatus by (simp add: exec_def)
    qed
  qed
qed

lemma length_run:
  "length (reports (run lib s txs)) = length (reports s) + submissions lib s txs"
  by (induction txs arbitrary: s) (simp_all add: length_exec)

lemma indexed_initial: "indexed initial"
  by (simp add: indexed_def initial_def idsOf_def)

text \<open>
  Claim C5. After any sequence of transactions from the empty ledger, of which \<open>N\<close> are
  successful \<open>submitReport\<close> calls (status updates and reverted calls may come in
  between), the report count is \<open>N\<close>, the ids at which a report can be read are exactly
  \<open>0, \<dots>, N - 1\<close>, the index of every principal lists in increasing order, which is
  the order of submission, exactly the ids whose report has that reporter, and the count
  of a principal is the length of that list. The next successful \<open>submitReport\<close> puts
  its report at id \<open>N\<close> and appends \<open>N\<close> at the end of the sender's index.
\<close>

theorem ids_dense_and_indexed:
  "getReportCount (run lib initial txs) = submissions lib initial txs
   \<and> (\<forall>rid. succeeds (getReportMeta (run lib initial txs) rid) = (rid < submissions lib initial txs))
   \<and> (\<forall>p. getReportIdsByReporter (run lib initial txs) p =
          filter (\<lambda>rid. reporter (reports (run lib initial txs) ! rid) = p)
            [0..<submissions lib initial txs])
   \<and> (\<forall>p. getReportCountByReporter (run lib initial txs) p =
          length (getReportIdsByReporter (run lib initial txs) p))
   \<and> (\<forall>sender time theTitle theData encKey inputProof s'.
          submitReport lib sender time theTitle theData encKey inputProof (run lib initial txs)
            = Inr s' \<longrightarrow>
          getReportIdsByReporter s' sender
            = getReportIdsByReporter (run lib initial txs) sender @ [submissions lib initial txs]
          \<and> getReportMeta s' (submissions lib initial txs)
            = Inr (sender, theTitle, word_of_nat time, Pending))"
proof -
  have len: "length (reports (run lib initial txs)) = submissions lib initial txs"
    using length_run [of lib initial txs] by (simp add: initial_def)
  have idx: "indexed (run lib initial txs)"
    by (rule indexed_run [OF indexed_initial])
  have old: "getReportCount (run lib initial txs) = submissions lib initial txs
   \<and> (\<forall>rid. succeeds (getReportMeta (run lib initial txs) rid) = (rid < submissions lib initial txs))
   \<and> (\<forall>p. getReportIdsByReporter (run lib initial txs) p =
          filter (\<lambda>rid. reporter (reports (run lib initial txs) ! rid) = p)
            [0..<submissions lib initial txs])
   \<and> (\<forall>p. getReportCountByReporter (run lib initial txs) p =
          length (getReportIdsByReporter (run lib initial txs) p))"
    using len idx
    by (simp add: getReportCount_def getReportMeta_def succeeds_def Let_def
        getReportIdsByReporter_def getReportCountByReporter_def indexed_def idsOf_def)
  have new: "getReportIdsByReporter s' sender
            = getReportIdsByReporter (run lib initial txs) sender @ [submissions lib initial txs]
          \<and> getReportMeta s' (submissions lib initial txs)
            = Inr (sender, theTitle, word_of_nat time, Pending)"
    if a: "submitReport lib sender time theTitle theData encKey inputProof (run lib initial txs) = Inr s'"
    for sender time theTitle theData encKey inputProof s'
  proof -
    from submitReport_reports [OF a] obtain key where
      r: "reports s' = reports (run lib initial txs) @
            [\<lparr>reporter = sender, title = theTitle, encryptedData = theData,
              encryptedKey = key, createdAt = word_of_nat time, status = Pending\<rparr>]"
      and i: "reportsByReporter s' = (reportsByReporter (run lib initial txs))
            (sender := reportsByReporter (run lib initial txs) sender @ [length (reports (run lib initial txs))])"
      by blast
    show ?thesis
      by (simp add: getReportIdsByReporter_def getReportMeta_def r i Let_def len [symmetric])
  qed
  show ?thesis
    using old new by (intro conjI allI impI) blast+
qed

theorem ids_dense_and_indexed_witness:
  "getReportCount (run acceptingLib initial
      [Tx alice 1000 (SubmitReport ''Report 0'' [1] 5 [7]),
       Tx alice 1001 (SubmitReport ''Report 1'' [2] 6 [7]),
       Tx alice 1002 (UpdateReportStatus 0 Reviewed),
       Tx bob 1003 (SubmitReport ''Bob Report'' [3] 7 [7])]) = 3
   \<and> getReportIdsByReporter (run acceptingLib initial
      [Tx alice 1000 (SubmitReport ''Report 0'' [1] 5 [7]),
       Tx alice 1001 (SubmitReport ''Report 1'' [2] 6 [7]),
       Tx alice 1002 (UpdateReportStatus 0 Reviewed),
       Tx bob 1003 (SubmitReport ''Bob Report'' [3] 7 [7])]) alice = [0, 1]
   \<and> getReportCountByReporter (run acceptingLib initial
      [Tx alice 1000 (SubmitReport ''Report 0'' [1] 5 [7]),
       Tx alice 1001 (SubmitReport ''Report 1'' [2] 6 [7]),
       Tx alice 1002 (UpdateReportStatus 0 Reviewed),
       Tx bob 1003 (SubmitReport ''Bob Report'' [3] 7 [7])]) bob = 1
   \<and> submitReport acceptingLib bob 1004 ''Bob 2'' [4] 8 [7]
        (run acceptingLib initial
          [Tx alice 1000 (SubmitReport ''Report 0'' [1] 5 [7]),
           Tx alice 1001 (SubmitReport ''Report 1'' [2] 6 [7]),
           Tx alice 1002 (UpdateReportStatus 0 Reviewed),
           Tx bob 1003 (SubmitReport ''Bob Report'' [3] 7 [7])])
     = Inr (run acceptingLib initial
          [Tx alice 1000 (SubmitReport ''Report 0'' [1] 5 [7]),
           Tx alice 1001 (SubmitReport ''Report 1'' [2] 6 [7]),
           Tx alice 1002 (UpdateReportStatus 0 Reviewed),
           Tx bob 1003 (SubmitReport ''Bob Report'' [3] 7 [7]),
           Tx bob 1004 (SubmitReport ''Bob 2'' [4] 8 [7])])
   \<and> getReportIdsByReporter (run acceptingLib initial
          [Tx alice 1000 (SubmitReport ''Report 0'' [1] 5 [7]),
           Tx alice 1001 (SubmitReport ''Report 1'' [2] 6 [7]),
           Tx alice 1002 (UpdateReportStatus 0 Reviewed),
           Tx bob 1003 (SubmitReport ''Bob Report'' [3] 7 [7]),
           Tx bob 1004 (SubmitReport ''Bob 2'' [4] 8 [7])]) bob = [2, 3]
   \<and> getReportMeta (run acceptingLib initial
          [Tx alice 1000 (SubmitReport ''Report 0'' [1] 5 [7]),
           Tx alice 1001 (SubmitReport ''Report 1'' [2] 6 [7]),
           Tx alice 1002 (UpdateReportStatus 0 Reviewed),
           Tx bob 1003 (SubmitReport ''Bob Report'' [3] 7 [7]),
           Tx bob 1004 (SubmitReport ''Bob 2'' [4] 8 [7])]) 3
     = Inr (bob, ''Bob 2'', 1004, Pending)"
proof -
  define txs where "txs =
      [Tx alice 1000 (SubmitReport ''Report 0'' [1] 5 [7]),
       Tx alice 1001 (SubmitReport ''Report 1'' [2] 6 [7]),
       Tx alice 1002 (UpdateReportStatus 0 Reviewed),
       Tx bob 1003 (SubmitReport ''Bob Report'' [3] 7 [7])]"
  define s3 where "s3 = run acceptingLib initial txs"
  define s4 where "s4 = run acceptingLib initial (txs @ [Tx bob 1004 (SubmitReport ''Bob 2'' [4] 8 [7])])"
  have n: "submissions acceptingLib initial txs = 3"
    by (simp add: txs_def initial_def acceptingLib_def exec_def submitReport_def
        updateReportStatus_def succeeds_def Let_def alice_def bob_def)
  have r: "map reporter (reports s3) = [alice, alice, bob]"
    by (simp add: s3_def txs_def initial_def acceptingLib_def exec_def submitReport_def
        updateReportStatus_def Let_def alice_def bob_def)
  have ne: "alice \<noteq> bob" "bob \<noteq> alice" by (simp_all add: alice_def bob_def)
  have len: "length (reports s3) = 3"
    using arg_cong [OF r, of length] by simp
  have nth: "reporter (reports s3 ! 0) = alice" "reporter (reports s3 ! 1) = alice"
    "reporter (reports s3 ! 2) = bob"
    using arg_cong [OF r, of "\<lambda>xs. xs ! 0"] arg_cong [OF r, of "\<lambda>xs. xs ! 1"]
      arg_cong [OF r, of "\<lambda>xs. xs ! 2"] len by simp_all
  have upt: "[0..<3] = [0, 1, 2 :: nat]" by (simp add: upt_rec)
  have run_snoc: "run lib s (ts @ [t]) = exec lib (run lib s ts) t" for lib s ts t
    by (induction ts arbitrary: s) simp_all
  have sub: "submitReport acceptingLib bob 1004 ''Bob 2'' [4] 8 [7] s3 = Inr s4"
    unfolding s4_def run_snoc s3_def [symmetric]
    by (simp add: exec_def submitReport_def acceptingLib_def Let_def)
  note t = ids_dense_and_indexed [of acceptingLib txs, folded s3_def, unfolded n]
  note c1 = t [THEN conjunct1]
  note c3 = t [THEN conjunct2, THEN conjunct2, THEN conjunct1]
  note c4 = t [THEN conjunct2, THEN conjunct2, THEN conjunct2, THEN conjunct1]
  note c5 = t [THEN conjunct2, THEN conjunct2, THEN conjunct2, THEN conjunct2]
  have ia: "getReportIdsByReporter s3 alice = [0, 1]"
    using c3 [THEN spec, of alice] nth ne by (simp add: upt)
  have ib: "getReportIdsByReporter s3 bob = [2]"
    using c3 [THEN spec, of bob] nth ne by (simp add: upt)
  have cb: "getReportCountByReporter s3 bob = 1"
    using c4 [THEN spec, of bob] by (simp add: ib)
  from c5 [rule_format, OF sub]
  have i4: "getReportIdsByReporter s4 bob = [2, 3]"
    and m4: "getReportMeta s4 3 = Inr (bob, ''Bob 2'', 1004, Pending)"
    by (simp_all add: ib)
  show ?thesis
    using c1 ia cb sub i4 m4
    unfolding s3_def s4_def txs_def append.simps
    by (intro conjI)
qed

text \<open>
  Claim C9. For an id outside \<open>[0, getReportCount)\<close> each of \<open>getReportMeta\<close>,
  \<open>getReportData\<close> and \<open>getEncryptedKey\<close> fails with \<open>NotFound\<close> (the bounds check of
  the array reverts); for an id inside, each returns the stored fields of that report.
\<close>

theorem getters_bounds:
  "(\<not> rid < getReportCount s \<longrightarrow>
      failsWith (getReportMeta s rid) NotFound
      \<and> failsWith (getReportData s rid) NotFound
      \<and> failsWith (getEncryptedKey s rid) NotFound)
   \<and> (rid < getReportCount s \<longrightarrow>
      getReportMeta s rid = Inr (reporter (reports s ! rid), title (reports s ! rid),
                                 createdAt (reports s ! rid), status (reports s ! rid))
      \<and> getReportData s rid = Inr (encryptedData (reports s ! rid))
      \<and> getEncryptedKey s rid = Inr (encryptedKey (reports s ! rid)))"
  by (simp add: getReportCount_def getReportMeta_def getReportData_def getEncryptedKey_def
      failsWith_def failureKind_def Let_def)

lemma one_report:
  "oneReport =
     \<lparr>reports = [\<lparr>reporter = alice, title = ''T'', encryptedData = [1, 2, 3], encryptedKey = 5,
                  createdAt = 1000, status = Pending\<rparr>],
      reportsByReporter = (\<lambda>_. [])(alice := [0]),
      grants = [(5, 0xC0DE), (5, alice)],
      events = [ReportSubmitted 0 alice ''T'' 1000]\<rparr>"
  by (simp add: oneReport_def initial_def acceptingLib_def exec_def submitReport_def Let_def)

theorem getters_bounds_witness:
  "\<not> 1 < getReportCount oneReport
   \<and> failsWith (getReportMeta oneReport 1) NotFound
   \<and> failsWith (getReportData oneReport 1) NotFound
   \<and> failsWith (getEncryptedKey oneReport 1) NotFound
   \<and> 0 < getReportCount oneReport
   \<and> getReportMeta oneReport 0 = Inr (alice, ''T'', 1000, Pending)
   \<and> getReportData oneReport 0 = Inr [1, 2, 3]
   \<and> getEncryptedKey oneReport 0 = Inr 5"
proof -
  have c: "getReportCount oneReport = 1"
    by (simp add: one_report getReportCount_def)
  have r: "reports oneReport ! 0 = \<lparr>reporter = alice, title = ''T'', encryptedData = [1, 2, 3],
              encryptedKey = 5, createdAt = 1000, status = Pending\<rparr>"
    by (simp add: one_report)
  show ?thesis
    using getters_bounds [of 1 oneReport] getters_bounds [of 0 oneReport] c r by simp
qed

text \<open>
  Claim C4. \<open>updateReportStatus\<close> fails with \<open>NotFound\<close> for an id outside
  \<open>[0, count)\<close> and with \<open>PermissionDenied\<close> for a caller that is not the reporter of
  the report; a failed call leaves the ledger, and so the status, as it was. Otherwise the
  call succeeds and the status read back is the new status, whatever the old status and
  the new one are.
\<close>

theorem updateReportStatus_checks:
  "(\<not> rid < getReportCount s \<longrightarrow>
      failsWith (updateReportStatus caller rid newStatus s) NotFound)
   \<and> (rid < getReportCount s \<and> reporter (reports s ! rid) \<noteq> caller \<longrightarrow>
      failsWith (updateReportStatus caller rid newStatus s) PermissionDenied)
   \<and> (\<not> succeeds (updateReportStatus caller rid newStatus s) \<longrightarrow>
      exec lib s (Tx caller time (UpdateReportStatus rid newStatus)) = s)
   \<and> (rid < getReportCount s \<and> reporter (reports s ! rid) = caller \<longrightarrow>
      succeeds (updateReportStatus caller rid newStatus s)
      \<and> getReportMeta (exec lib s (Tx caller time (UpdateReportStatus rid newStatus))) rid
          = Inr (caller, title (reports s ! rid), createdAt (reports s ! rid), newStatus))"
  by (simp add: getReportCount_def updateReportStatus_def failsWith_def failureKind_def
      succeeds_def exec_def getReportMeta_def Let_def)

theorem updateReportStatus_checks_witness:
  "\<not> 1 < getReportCount oneReport
   \<and> failsWith (updateReportStatus alice 1 Reviewed oneReport) NotFound
   \<and> 0 < getReportCount oneReport
   \<and> reporter (reports oneReport ! 0) \<noteq> bob
   \<and> failsWith (updateReportStatus bob 0 Reviewed oneReport) PermissionDenied
   \<and> \<not> succeeds (updateReportStatus bob 0 Reviewed oneReport)
   \<and> exec acceptingLib oneReport (Tx bob 1001 (UpdateReportStatus 0 Reviewed)) = oneReport
   \<and> reporter (reports oneReport ! 0) = alice
   \<and> getReportMeta (exec acceptingLib oneReport (Tx alice 1001 (UpdateReportStatus 0 Resolved))) 0
        = Inr (alice, ''T'', 1000, Resolved)
   \<and> getReportMeta (exec acceptingLib
          (exec acceptingLib oneReport (Tx alice 1001 (UpdateReportStatus 0 Resolved)))
          (Tx alice 1002 (UpdateReportStatus 0 Pending))) 0
        = Inr (alice, ''T'', 1000, Pending)"
proof -
  have c: "getReportCount oneReport = 1"
    by (simp add: one_report getReportCount_def)
  have r: "reports oneReport ! 0 = \<lparr>reporter = alice, title = ''T'', encryptedData = [1, 2, 3],
              encryptedKey = 5, createdAt = 1000, status = Pending\<rparr>"
    by (simp add: one_report)
  have ne: "alice \<noteq> bob" by (simp add: alice_def bob_def)
  define s1 where "s1 = exec acceptingLib oneReport (Tx alice 1001 (UpdateReportStatus 0 Resolved))"
  have c1: "getReportCount s1 = 1"
    by (simp add: s1_def one_report getReportCount_def exec_def updateReportStatus_def)
  have r1: "reports s1 ! 0 = \<lparr>reporter = alice, title = ''T'', encryptedData = [1, 2, 3],
              encryptedKey = 5, createdAt = 1000, status = Resolved\<rparr>"
    by (simp add: s1_def one_report exec_def updateReportStatus_def)
  show ?thesis
    using updateReportStatus_checks [of 1 oneReport alice Reviewed acceptingLib 1001]
      updateReportStatus_checks [of 0 oneReport bob Reviewed acceptingLib 1001]
      updateReportStatus_checks [of 0 oneReport alice Resolved acceptingLib 1001]
      updateReportStatus_checks [of 0 s1 alice Pending acceptingLib 1002]
      c r ne c1 r1
    unfolding s1_def [symmetric]
    by (simp add: failsWith_def succeeds_def split: sum.splits)
qed

lemma exec_keeps_created:
  assumes "i < length (reports s)"
  shows "i < length (reports (exec lib s t))
         \<and> createdFields (reports (exec lib s t) ! i) = createdFields (reports s ! i)"
proof -
  obtain sender ts c where t: "t = Tx sender ts c" by (cases t)
  show ?thesis
  proof (cases "perform lib s t")
    case (Inl e)
    then show ?thesis using assms by (simp add: exec_def)
  next
    case (Inr s')
    then have ex: "exec lib s t = s'" by (simp add: exec_def)
    show ?thesis
    proof (cases c)
      case (SubmitReport tt d k ip)
      then have "submitReport lib sender ts tt d k ip s = Inr s'" using Inr t by simp
      from submitReport_reports(1) [OF this] assms show ?thesis
        unfolding ex by (auto simp: nth_append)
    next
      case (UpdateReportStatus rid st)
      then have "updateReportStatus sender rid st s = Inr s'" using Inr t by simp
      from updateReportStatus_Inr [OF this] assms show ?thesis
        unfolding ex by (cases "i = rid") (simp_all add: createdFields_def)
    qed
  qed
qed

lemma run_keeps_created:
  "i < length (reports s) \<Longrightarrow>
   i < length (reports (run lib s txs))
   \<and> createdFields (reports (run lib s txs) ! i) = createdFields (reports s ! i)"
proof (induction txs arbitrary: s)
  case Nil
  then show ?case by simp
next
  case (Cons t txs)
  from exec_keeps_created [OF Cons.prems, of lib t]
  have a: "i < length (reports (exec lib s t))"
    and b: "createdFields (reports (exec lib s t) ! i) = createdFields (reports s ! i)"
    by simp_all
  from Cons.IH [OF a] b show ?case by simp
qed

text \<open>
  Claim C6. A successful \<open>updateReportStatus\<close> changes the status field of the report
  with the given id and nothing else of the reports and the index. A successful
  \<open>submitReport\<close> appends one report, keeps every report stored before and keeps the
  index of every principal other than the sender. Hence over any sequence of transactions
  the reporter, title, encrypted data, encrypted key and creation time of a stored report
  stay what they were.
\<close>

theorem created_fields_immutable:
  "(updateReportStatus caller rid newStatus s = Inr s' \<longrightarrow>
      length (reports s') = length (reports s)
      \<and> reportsByReporter s' = reportsByReporter s
      \<and> (\<forall>i. i \<noteq> rid \<longrightarrow> reports s' ! i = reports s ! i)
      \<and> reports s' ! rid = (reports s ! rid)\<lparr>status := newStatus\<rparr>
      \<and> createdFields (reports s' ! rid) = createdFields (reports s ! rid))
   \<and> (submitReport lib sender time theTitle theData encKey inputProof s = Inr s' \<longrightarrow>
      length (reports s') = length (reports s) + 1
      \<and> take (length (reports s)) (reports s') = reports s
      \<and> (\<forall>p. p \<noteq> sender \<longrightarrow> reportsByReporter s' p = reportsByReporter s p))
   \<and> (\<forall>i. i < length (reports s) \<longrightarrow>
        i < length (reports (run lib s txs))
        \<and> createdFields (reports (run lib s txs) ! i) = createdFields (reports s ! i))"
proof (intro conjI impI allI)
  assume u: "updateReportStatus caller rid newStatus s = Inr s'"
  note f = updateReportStatus_Inr [OF u]
  show "length (reports s') = length (reports s)" using f by simp
  show "reportsByReporter s' = reportsByReporter s" using f by simp
  show "reports s' ! rid = (reports s ! rid)\<lparr>status := newStatus\<rparr>" using f by simp
  then show "createdFields (reports s' ! rid) = createdFields (reports s ! rid)"
    by (simp add: createdFields_def)
  show "reports s' ! i = reports s ! i" if "i \<noteq> rid" for i using f that by simp
next
  assume a: "submitReport lib sender time theTitle theData encKey inputProof s = Inr s'"
  note f = submitReport_reports [OF a]
  show "length (reports s') = length (reports s) + 1" using f by auto
  show "take (length (reports s)) (reports s') = reports s" using f by auto
  show "reportsByReporter s' p = reportsByReporter s p" if "p \<noteq> sender" for p
    using f that by simp
next
  fix i assume "i < length (reports s)"
  then show "i < length (reports (run lib s txs))"
    and "createdFields (reports (run lib s txs) ! i) = createdFields (reports s ! i)"
    using run_keeps_created [of i s lib txs] by simp_all
qed

theorem created_fields_immutable_witness:
  "updateReportStatus alice 0 Resolved oneReport
     = Inr (exec acceptingLib oneReport (Tx alice 1001 (UpdateReportStatus 0 Resolved)))
   \<and> createdFields (reports (exec acceptingLib oneReport (Tx alice 1001 (UpdateReportStatus 0 Resolved))) ! 0)
     = createdFields (reports oneReport ! 0)
   \<and> reportsByReporter (exec acceptingLib oneReport (Tx alice 1001 (UpdateReportStatus 0 Resolved)))
     = reportsByReporter oneReport
   \<and> submitReport acceptingLib bob 1002 ''B'' [4] 6 [7] oneReport
     = Inr (exec acceptingLib oneReport (Tx bob 1002 (SubmitReport ''B'' [4] 6 [7])))
   \<and> take (length (reports oneReport))
        (reports (exec acceptingLib oneReport (Tx bob 1002 (SubmitReport ''B'' [4] 6 [7]))))
     = reports oneReport
   \<and> alice \<noteq> bob
   \<and> reportsByReporter (exec acceptingLib oneReport (Tx bob 1002 (SubmitReport ''B'' [4] 6 [7]))) alice
     = reportsByReporter oneReport alice
   \<and> 0 < length (reports oneReport)
   \<and> createdFields (reports (run acceptingLib oneReport
         [Tx alice 1001 (UpdateReportStatus 0 Resolved), Tx bob 1002 (SubmitReport ''B'' [4] 6 [7])]) ! 0)
     = createdFields (reports oneReport ! 0)"
proof -
  define su where "su = exec acceptingLib oneReport (Tx alice 1001 (UpdateReportStatus 0 Resolved))"
  define sb where "sb = exec acceptingLib oneReport (Tx bob 1002 (SubmitReport ''B'' [4] 6 [7]))"
  define txs where "txs =
    [Tx alice 1001 (UpdateReportStatus 0 Resolved), Tx bob 1002 (SubmitReport ''B'' [4] 6 [7])]"
  have hu: "updateReportStatus alice 0 Resolved oneReport = Inr su"
    by (simp add: su_def one_report exec_def updateReportStatus_def)
  have hb: "submitReport acceptingLib bob 1002 ''B'' [4] 6 [7] oneReport = Inr sb"
    by (simp add: sb_def exec_def submitReport_def acceptingLib_def Let_def)
  have ne: "alice \<noteq> bob" by (simp add: alice_def bob_def)
  have pos: "0 < length (reports oneReport)" by (simp add: one_report)
  have "createdFields (reports su ! 0) = createdFields (reports oneReport ! 0)"
    and "reportsByReporter su = reportsByReporter oneReport"
    using created_fields_immutable [where caller = alice and rid = 0 and newStatus = Resolved
        and s = oneReport and s' = su] hu by blast+
  moreover have "take (length (reports oneReport)) (reports sb) = reports oneReport"
    and "reportsByReporter sb alice = reportsByReporter oneReport alice"
    using created_fields_immutable [where s = oneReport and s' = sb and lib = acceptingLib
        and sender = bob and time = 1002 and theTitle = "''B''" and theData = "[4]"
        and encKey = 6 and inputProof = "[7]"] hb ne by blast+
  moreover have "createdFields (reports (run acceptingLib oneReport txs) ! 0)
      = createdFields (reports oneReport ! 0)"
    using created_fields_immutable [where s = oneReport and lib = acceptingLib and txs = txs] pos
    by blast
  ultimately show ?thesis
    using hu hb ne pos unfolding su_def sb_def txs_def by blast
qed

text \<open>
  Claim C3, evaluated on the contract: called with an empty title, or with empty data, and
  an accepted input proof, \<open>submitReport\<close> does not fail. It stores the report, and the
  report count becomes 1.
\<close>

theorem submitReport_accepts_empty:
  "submitReport acceptingLib alice 1000 '''' [1, 2, 3] 5 [7] initial =
     Inr \<lparr>reports = [\<lparr>reporter = alice, title = '''', encryptedData = [1, 2, 3], encryptedKey = 5,
                      createdAt = 1000, status = Pending\<rparr>],
          reportsByReporter = (\<lambda>_. [])(alice := [0]),
          grants = [(5, 0xC0DE), (5, alice)],
          events = [ReportSubmitted 0 alice '''' 1000]\<rparr>
   \<and> \<not> failsWith (submitReport acceptingLib alice 1000 '''' [1, 2, 3] 5 [7] initial) InvalidInput
   \<and> getReportCount (exec acceptingLib initial (Tx alice 1000 (SubmitReport '''' [1, 2, 3] 5 [7]))) = 1
   \<and> \<not> failsWith (submitReport acceptingLib alice 1000 ''T'' [] 5 [7] initial) InvalidInput
   \<and> getReportCount (exec acceptingLib initial (Tx alice 1000 (SubmitReport ''T'' [] 5 [7]))) = 1"
  by (simp add: submitReport_def acceptingLib_def initial_def Let_def failsWith_def exec_def
      getReportCount_def)

section \<open>The keystream block against the specification\<close>

lemma rotl32_eq:
  assumes "0 < c" "c < 32"
  shows "rotl32 v c = word_rotl c v"
proof (rule bit_word_eqI)
  fix n assume "n < LENGTH(32)"
  then have n: "n < 32" by simp
  have lhs: "bit (rotl32 v c) n \<longleftrightarrow> (c \<le> n \<and> bit v (n - c)) \<or> bit v (32 - c + n)"
    using assms n by (simp add: rotl32_def bit_or_iff bit_push_bit_iff bit_drop_bit_eq)
  have rhs: "bit (word_rotl c v) n \<longleftrightarrow> bit v ((n + (32 - c)) mod 32)"
    using assms n by (simp add: bit_word_rotl_iff)
  show "bit (rotl32 v c) n \<longleftrightarrow> bit (word_rotl c v) n"
  proof (cases "n < c")
    case True
    then have "(n + (32 - c)) mod 32 = 32 - c + n" using assms by simp
    then show ?thesis using True lhs rhs by simp
  next
    case False
    then have m: "(n + (32 - c)) mod 32 = n - c"
      using assms n by (simp add: mod_if)
    have "\<not> bit v (32 - c + n)"
    proof
      assume "bit v (32 - c + n)"
      then have "32 - c + n < LENGTH(32)" by (rule bit_imp_le_length)
      then show False using False assms by simp
    qed
    then show ?thesis using False lhs rhs m by simp
  qed
qed

lemma or_is_add:
  fixes a b :: u32
  assumes "\<And>n. \<not> bit a n \<or> \<not> bit b n"
  shows "a OR b = a + b"
  using disjunctive_add [of a b] assms by simp

lemma ucast_bit_bound: "bit (ucast (b :: u8) :: u32) n \<Longrightarrow> n < 8"
  by (auto simp: bit_ucast_iff dest: bit_imp_le_length)

lemma push_ucast_bit_bound:
  "bit (push_bit k (ucast (b :: u8) :: u32)) n \<Longrightarrow> k \<le> n \<and> n < k + 8"
  by (auto simp: bit_push_bit_iff dest: ucast_bit_bound)

lemma readWord_le32:
  assumes "i * 4 + 3 < length x"
  shows "readWord x i = spec_le32 (take 4 (drop (4 * i) x))"
proof -
  define b0 where "b0 = x ! (i * 4)"
  define b1 where "b1 = x ! (i * 4 + 1)"
  define b2 where "b2 = x ! (i * 4 + 2)"
  define b3 where "b3 = x ! (i * 4 + 3)"
  define X :: u32 where "X = ucast b0"
  define Y :: u32 where "Y = push_bit 8 (ucast b1)"
  define Z :: u32 where "Z = push_bit 16 (ucast b2)"
  define W :: u32 where "W = push_bit 24 (ucast b3)"
  have rd: "readWord x i = X OR Y OR Z OR W"
    using assms by (simp add: readWord_def byteAt_def b0_def b1_def b2_def b3_def X_def Y_def Z_def W_def)
  have sp: "spec_le32 (take 4 (drop (4 * i) x)) =
      word_of_nat (unat b0 + 2 ^ 8 * unat b1 + 2 ^ 16 * unat b2 + 2 ^ 24 * unat b3)"
    using assms by (simp add: spec_le32_def b0_def b1_def b2_def b3_def mult.commute)
  have bX: "bit X n \<Longrightarrow> n < 8" for n unfolding X_def by (rule ucast_bit_bound)
  have bY: "bit Y n \<Longrightarrow> 8 \<le> n \<and> n < 16" for n
    unfolding Y_def using push_ucast_bit_bound [of 8 b1 n] by simp
  have bZ: "bit Z n \<Longrightarrow> 16 \<le> n \<and> n < 24" for n
    unfolding Z_def using push_ucast_bit_bound [of 16 b2 n] by simp
  have bW: "bit W n \<Longrightarrow> 24 \<le> n \<and> n < 32" for n
    unfolding W_def using push_ucast_bit_bound [of 24 b3 n] by simp
  have e3: "Z OR W = Z + W"
    by (rule or_is_add) (use bZ bW in fastforce)
  have e2: "Y OR (Z OR W) = Y + (Z OR W)"
    by (rule or_is_add) (use bY bZ bW in \<open>fastforce simp: bit_or_iff\<close>)
  have e1: "X OR (Y OR (Z OR W)) = X + (Y OR (Z OR W))"
    by (rule or_is_add) (use bX bY bZ bW in \<open>fastforce simp: bit_or_iff\<close>)
  have "X OR (Y OR (Z OR W)) = X + (Y OR (Z OR W))" by (rule e1)
  also have "\<dots> = X + (Y + (Z OR W))" by (simp only: e2)
  also have "\<dots> = X + (Y + (Z + W))" by (simp only: e3)
  finally have sum: "readWord x i = X + (Y + (Z + W))"
    unfolding rd .
  have "X = word_of_nat (unat b0)" by (simp add: X_def)
  moreover have "Y = word_of_nat (2 ^ 8 * unat b1)" by (simp add: Y_def push_bit_eq_mult)
  moreover have "Z = word_of_nat (2 ^ 16 * unat b2)" by (simp add: Z_def push_bit_eq_mult)
  moreover have "W = word_of_nat (2 ^ 24 * unat b3)" by (simp add: W_def push_bit_eq_mult)
  ultimately show ?thesis
    unfolding sum sp by (simp only: of_nat_add add.assoc)
qed

lemma ucast_drop_byte:
  "(ucast (drop_bit k (w :: u32)) :: u8) = word_of_nat (unat w div 2 ^ k mod 256)"
proof -
  have "(ucast (drop_bit k w) :: u8) = word_of_nat (unat (drop_bit k w))" by simp
  also have "unat (drop_bit k w) = unat w div 2 ^ k"
    by (subst unat_drop_bit_eq) (simp add: drop_bit_eq_div)
  also have "(word_of_nat (unat w div 2 ^ k) :: u8) = word_of_nat (unat w div 2 ^ k mod 256)"
    by (simp add: word_of_nat_eq_iff take_bit_eq_mod)
  finally show ?thesis .
qed

lemma setUint32LE_spec: "setUint32LE w = spec_bytes_le w"
proof -
  have "(ucast w :: u8) = ucast (drop_bit 0 w)" by simp
  then have "(ucast w :: u8) = word_of_nat (unat w div 2 ^ 0 mod 256)"
    by (simp only: ucast_drop_byte)
  then have "(ucast w :: u8) = word_of_nat (unat w mod 256)" by simp
  moreover have "[0..<4] = [0, 1, 2, 3 :: nat]" by (simp add: upt_rec)
  ultimately show ?thesis
    by (simp add: setUint32LE_def spec_bytes_le_def ucast_drop_byte)
qed

lemma quarterRound_length: "length (quarterRound st a b c d) = length st"
  by (simp add: quarterRound_def Let_def)

lemma quarterRound_spec:
  assumes "a < length st" "b < length st" "c < length st" "d < length st"
    and "a \<noteq> b" "a \<noteq> c" "a \<noteq> d" "b \<noteq> c" "b \<noteq> d" "c \<noteq> d"
  shows "quarterRound st a b c d = spec_quarter_at (a, b, c, d) st"
  using assms
  by (simp add: quarterRound_def Let_def rotl32_eq list_eq_iff_nth_eq nth_list_update)

lemma doubleRound_length: "length (doubleRound st) = length st"
  by (simp add: doubleRound_def Let_def quarterRound_length)

lemma doubleRound_spec:
  assumes "length st = 16"
  shows "doubleRound st = spec_double_round st"
proof -
  have q: "quarterRound w a b c d = spec_quarter_at (a, b, c, d) w"
    if "length w = 16" "a < 16" "b < 16" "c < 16" "d < 16"
      "a \<noteq> b" "a \<noteq> c" "a \<noteq> d" "b \<noteq> c" "b \<noteq> d" "c \<noteq> d" for w a b c d
    using that by (intro quarterRound_spec) simp_all
  define w1 where "w1 = quarterRound st 0 4 8 12"
  define w2 where "w2 = quarterRound w1 1 5 9 13"
  define w3 where "w3 = quarterRound w2 2 6 10 14"
  define w4 where "w4 = quarterRound w3 3 7 11 15"
  define w5 where "w5 = quarterRound w4 0 5 10 15"
  define w6 where "w6 = quarterRound w5 1 6 11 12"
  define w7 where "w7 = quarterRound w6 2 7 8 13"
  define w8 where "w8 = quarterRound w7 3 4 9 14"
  have len: "length w1 = 16" "length w2 = 16" "length w3 = 16" "length w4 = 16"
    "length w5 = 16" "length w6 = 16" "length w7 = 16"
    by (simp_all add: w1_def w2_def w3_def w4_def w5_def w6_def w7_def quarterRound_length assms)
  have s1: "w1 = spec_quarter_at (0, 4, 8, 12) st" unfolding w1_def using assms by (intro q) simp_all
  have s2: "w2 = spec_quarter_at (1, 5, 9, 13) w1" unfolding w2_def using len by (intro q) simp_all
  have s3: "w3 = spec_quarter_at (2, 6, 10, 14) w2" unfolding w3_def using len by (intro q) simp_all
  have s4: "w4 = spec_quarter_at (3, 7, 11, 15) w3" unfolding w4_def using len by (intro q) simp_all
  have s5: "w5 = spec_quarter_at (0, 5, 10, 15) w4" unfolding w5_def using len by (intro q) simp_all
  have s6: "w6 = spec_quarter_at (1, 6, 11, 12) w5" unfolding w6_def using len by (intro q) simp_all
  have s7: "w7 = spec_quarter_at (2, 7, 8, 13) w6" unfolding w7_def using len by (intro q) simp_all
  have s8: "w8 = spec_quarter_at (3, 4, 9, 14) w7" unfolding w8_def using len by (intro q) simp_all
  have "doubleRound st = w8"
    by (simp only: doubleRound_def Let_def w1_def w2_def w3_def w4_def w5_def w6_def w7_def w8_def)
  moreover have "spec_double_round st = w8"
    unfolding spec_double_round_def spec_columns_def spec_diagonals_def
    by (simp only: append.simps fold.simps comp_def id_def s1 s2 s3 s4 s5 s6 s7 s8)
  ultimately show ?thesis by simp
qed

lemma rounds_length: "length (rounds n st) = length st"
  by (induction n arbitrary: st) (simp_all add: doubleRound_length)

lemma spec_rounds_length:
  "length st = 16 \<Longrightarrow> length ((spec_double_round ^^ n) st) = 16"
  by (induction n) (simp_all add: doubleRound_spec [symmetric] doubleRound_length)

lemma rounds_spec:
  "length st = 16 \<Longrightarrow> rounds n st = (spec_double_round ^^ n) st"
proof (induction n arbitrary: st)
  case 0
  then show ?case by simp
next
  case (Suc n)
  have "rounds (Suc n) st = rounds n (doubleRound st)" by simp
  also have "\<dots> = (spec_double_round ^^ n) (doubleRound st)"
    using Suc.prems by (intro Suc.IH) (simp add: doubleRound_length)
  also have "\<dots> = (spec_double_round ^^ n) (spec_double_round st)"
    using Suc.prems by (simp add: doubleRound_spec)
  also have "\<dots> = (spec_double_round ^^ Suc n) st"
    by (simp add: funpow_swap1)
  finally show ?case .
qed

lemma addState_length: "length (addState n state working) = length working"
  by (induction n) (simp_all add: Let_def)

lemma addState_nth:
  "i < length working \<Longrightarrow>
   addState n state working ! i = (if i < n then working ! i + state ! i else working ! i)"
proof (induction n)
  case 0
  then show ?case by simp
next
  case (Suc n)
  then show ?case
    by (cases "i = n") (simp_all add: Let_def addState_length nth_list_update)
qed

lemma addState_spec:
  assumes "length state = 16" "length working = 16"
  shows "addState 16 state working = map2 (+) working state"
  using assms
  by (intro nth_equalityI) (simp_all add: addState_length addState_nth)

lemma serialize_spec:
  assumes "length working = 16"
  shows "serialize working = concat (map spec_bytes_le working)"
proof -
  have "map (\<lambda>i. setUint32LE (working ! i)) [0..<16] = map spec_bytes_le (map ((!) working) [0..<length working])"
    using assms by (simp add: setUint32LE_spec)
  also have "\<dots> = map spec_bytes_le working" by (simp only: map_nth)
  finally show ?thesis by (simp add: serialize_def)
qed

lemma constants_spec: "map (readWord constants) [0..<4] = spec_constants"
proof -
  have "[0..<4] = [0, 1, 2, 3 :: nat]" by (simp add: upt_rec)
  then show ?thesis
    by (simp add: readWord_def constants_def byteAt_def spec_constants_def)
qed

lemma words_spec:
  assumes "length x = 4 * n"
  shows "map (readWord x) [0..<n] = spec_words n x"
  unfolding spec_words_def
  using assms by (intro map_cong refl readWord_le32) simp

lemma initState_spec:
  assumes "length key = 32" "length nonce = 12"
  shows "initState key counter nonce = spec_init key counter nonce"
  using assms by (simp add: initState_def spec_init_def constants_spec words_spec)

lemma initState_length: "length (initState key counter nonce) = 16"
  by (simp add: initState_def)

lemma chacha20Block_refines:
  assumes "length key = 32" "length nonce = 12"
  shows "chacha20Block key counter nonce = spec_block key counter nonce"
proof -
  define s0 where "s0 = initState key counter nonce"
  have l0: "length s0 = 16" by (simp add: s0_def initState_length)
  have i: "spec_init key counter nonce = s0" using assms by (simp add: s0_def initState_spec)
  have r: "rounds 10 s0 = (spec_double_round ^^ 10) s0" using l0 by (rule rounds_spec)
  have lr: "length (rounds 10 s0) = 16" by (simp add: rounds_length l0)
  have "chacha20Block key counter nonce = serialize (addState 16 s0 (rounds 10 s0))"
    by (simp add: chacha20Block_def Let_def s0_def)
  also have "\<dots> = serialize (map2 (+) (rounds 10 s0) s0)"
    using l0 lr by (simp only: addState_spec)
  also have "\<dots> = concat (map spec_bytes_le (map2 (+) (rounds 10 s0) s0))"
    using l0 lr by (intro serialize_spec) simp
  also have "\<dots> = spec_block key counter nonce"
    by (simp only: spec_block_def Let_def i r)
  finally show ?thesis .
qed

lemma chacha20Block_length: "length (chacha20Block key counter nonce) = 64"
proof -
  have "length (concat (map (\<lambda>i. setUint32LE (w ! i)) [0..<16])) = 64" for w
    by (simp add: setUint32LE_def length_concat comp_def sum_list_triv)
  then show ?thesis by (simp add: chacha20Block_def Let_def serialize_def)
qed

text \<open>
  The ten double rounds on the initial state of the all-zero key, nonce and counter, one
  at a time.
\<close>

lemma zero_round_1:
  "doubleRound
     [1634760805, 857760878, 2036477234, 1797285236,
      0, 0, 0, 0,
      0, 0, 0, 0,
      0, 0, 0, 0] =
     [3831485001, 465051814, 3810167018, 3865553406,
      708572787, 2260680856, 1175146506, 4195784838,
      1401801230, 205755969, 16389820, 2315813162,
      1807715081, 3274707926, 3147798601, 2277908837]"
  by code_simp

lemma zero_round_2:
  "doubleRound
     [3831485001, 465051814, 3810167018, 3865553406,
      708572787, 2260680856, 1175146506, 4195784838,
      1401801230, 205755969, 16389820, 2315813162,
      1807715081, 3274707926, 3147798601, 2277908837] =
     [2987265446, 555851331, 2043056534, 2394542343,
      683648334, 243939487, 2031723700, 842999353,
      1769110809, 317167340, 3515309448, 1613476332,
      1612483213, 416233319, 1624313532, 397031114]"
  by code_simp

lemma zero_round_3:
  "doubleRound
     [2987265446, 555851331, 2043056534, 2394542343,
      683648334, 243939487, 2031723700, 842999353,
      1769110809, 317167340, 3515309448, 1613476332,
      1612483213, 416233319, 1624313532, 397031114] =
     [42443425, 3537648111, 4075615518, 3280431870,
      2457253921, 936163239, 535217241, 3858322967,
      3618735395, 2694131698, 320827381, 1865984460,
      1547860575, 496143739, 4107449562, 442763396]"
  by code_simp

lemma zero_round_4:
  "doubleRound
     [42443425, 3537648111, 4075615518, 3280431870,
      2457253921, 936163239, 535217241, 3858322967,
      3618735395, 2694131698, 320827381, 1865984460,
      1547860575, 496143739, 4107449562, 442763396] =
     [3464398809, 2736782107, 1867918925, 914662315,
      3272508460, 998218446, 2296453912, 505049583,
      1927367832, 1097802169, 1733510303, 425094469,
      2739030577, 28346074, 3103619896, 1123945486]"
  by code_simp

lemma zero_round_5:
  "doubleRound
     [3464398809, 2736782107, 1867918925, 914662315,
      3272508460, 998218446, 2296453912, 505049583,
      1927367832, 1097802169, 1733510303, 425094469,
      2739030577, 28346074, 3103619896, 1123945486] =
     [1308838156, 2549006073, 4135762692, 793240496,
      1354003995, 3934035184, 3013862787, 3854227624,
      1335860601, 1156916115, 2881466214, 1593652346,
      2985647285, 85002989, 1444698375, 3558679988]"
  by code_simp

lemma zero_round_6:
  "doubleRound
     [1308838156, 2549006073, 4135762692, 793240496,
      1354003995, 3934035184, 3013862787, 3854227624,
      1335860601, 1156916115, 2881466214, 1593652346,
      2985647285, 85002989, 1444698375, 3558679988] =
     [153779254, 551088281, 2573988431, 1784856811,
      3150129412, 343203913, 2777219198, 1595256366,
      2046321669, 3236133586, 875096108, 2039282348,
      748642874, 426368672, 803736417, 3190166337]"
  by code_simp

lemma zero_round_7:
  "doubleRound
     [153779254, 551088281, 2573988431, 1784856811,
      3150129412, 343203913, 2777219198, 1595256366,
      2046321669, 3236133586, 875096108, 2039282348,
      748642874, 426368672, 803736417, 3190166337] =
     [1843350424, 1608384784, 3655185970, 1947739403,
      3718507033, 1188705781, 838547146, 1894081315,
      1188398960, 3234391270, 3125483095, 3295685470,
      2940917475, 3868489986, 646047163, 674516562]"
  by code_simp

lemma zero_round_8:
  "doubleRound
     [1843350424, 1608384784, 3655185970, 1947739403,
      3718507033, 1188705781, 838547146, 1894081315,
      1188398960, 3234391270, 3125483095, 3295685470,
      2940917475, 3868489986, 646047163, 674516562] =
     [4142613381, 256929999, 2185938132, 4278346116,
      1910216669, 1624086861, 2910867510, 2312475086,
      2656191475, 382791205, 2196319126, 3503982164,
      1805033478, 1199192055, 3527735948, 2991348835]"
  by code_simp

lemma zero_round_9:
  "doubleRound
     [4142613381, 256929999, 2185938132, 4278346116,
      1910216669, 1624086861, 2910867510, 2312475086,
      2656191475, 382791205, 2196319126, 3503982164,
      1805033478, 1199192055, 3527735948, 2991348835] =
     [172609723, 4252221419, 3259208404, 3775952493,
      2081980761, 957320013, 170075935, 235214466,
      1531487041, 140632055, 1563676091, 399783725,
      3319306763, 2649833516, 2961880544, 2236122496]"
  by code_simp

lemma zero_round_10:
  "doubleRound
     [172609723, 4252221419, 3259208404, 3775952493,
      2081980761, 957320013, 170075935, 235214466,
      1531487041, 140632055, 1563676091, 399783725,
      3319306763, 2649833516, 2961880544, 2236122496] =
     [1282424849, 1562217778, 1812475918, 3181191391,
      3088700093, 451775904, 3438229160, 3339548555,
      2086224346, 2370328401, 1071654007, 927652024,
      4105716586, 480319509, 1773569987, 2254827186]"
  by code_simp

lemma rounds_10: "rounds 10 w = doubleRound (doubleRound (doubleRound (doubleRound (doubleRound (doubleRound (doubleRound (doubleRound (doubleRound (doubleRound w)))))))))"
  by (simp add: eval_nat_numeral)

lemma zero_initState:
  "initState (replicate 32 0) 0 (replicate 12 0) =
     [1634760805, 857760878, 2036477234, 1797285236,
      0, 0, 0, 0,
      0, 0, 0, 0,
      0, 0, 0, 0]"
  by code_simp

lemma zero_rounds:
  "rounds 10
     [1634760805, 857760878, 2036477234, 1797285236,
      0, 0, 0, 0,
      0, 0, 0, 0,
      0, 0, 0, 0] =
     [1282424849, 1562217778, 1812475918, 3181191391,
      3088700093, 451775904, 3438229160, 3339548555,
      2086224346, 2370328401, 1071654007, 927652024,
      4105716586, 480319509, 1773569987, 2254827186]"
  unfolding rounds_10
  by (simp only: zero_round_1 zero_round_2 zero_round_3 zero_round_4 zero_round_5
      zero_round_6 zero_round_7 zero_round_8 zero_round_9 zero_round_10)

lemma zero_finish:
  "serialize (addState 16
     [1634760805, 857760878, 2036477234, 1797285236,
      0, 0, 0, 0,
      0, 0, 0, 0,
      0, 0, 0, 0]
     [1282424849, 1562217778, 1812475918, 3181191391,
      3088700093, 451775904, 3438229160, 3339548555,
      2086224346, 2370328401, 1071654007, 927652024,
      4105716586, 480319509, 1773569987, 2254827186]) = referenceBlock"
  by code_simp

lemma zero_block: "chacha20Block (replicate 32 0) 0 (replicate 12 0) = referenceBlock"
  unfolding chacha20Block_def Let_def zero_initState zero_rounds
  by (rule zero_finish)

text \<open>
  Claim C2. For a 32-byte key, a 12-byte nonce and a block counter, \<open>chacha20Block\<close>
  computes the block of the specification: the state of four constant words, eight
  little-endian key words, the counter and three little-endian nonce words; ten double
  rounds of the quarter round over the columns and the diagonals; the initial state added
  word by word modulo \<open>2 ^ 32\<close>; the 16 words written little-endian, 64 bytes in all.
  For the all-zero key, the all-zero nonce and counter 0 the block is the ChaCha20
  reference block.
\<close>

theorem chacha20Block_spec:
  "(length key = 32 \<and> length nonce = 12 \<longrightarrow>
      chacha20Block key counter nonce = spec_block key counter nonce
      \<and> length (chacha20Block key counter nonce) = 64)
   \<and> chacha20Block (replicate 32 0) 0 (replicate 12 0) = referenceBlock"
  using chacha20Block_refines [of key nonce counter] chacha20Block_length [of key counter nonce]
    zero_block
  by blast

theorem chacha20Block_spec_witness:
  "length (map word_of_nat [0..<32] :: u8 list) = 32
   \<and> length [0, 0, 0, 9, 0, 0, 0, 0x4a, 0, 0, 0, 0 :: u8] = 12
   \<and> chacha20Block (map word_of_nat [0..<32]) 1 [0, 0, 0, 9, 0, 0, 0, 0x4a, 0, 0, 0, 0]
     = spec_block (map word_of_nat [0..<32]) 1 [0, 0, 0, 9, 0, 0, 0, 0x4a, 0, 0, 0, 0]
   \<and> length (chacha20Block (map word_of_nat [0..<32]) 1 [0, 0, 0, 9, 0, 0, 0, 0x4a, 0, 0, 0, 0]) = 64"
proof -
  have h1: "length (map word_of_nat [0..<32] :: u8 list) = 32" by simp
  have h2: "length [0, 0, 0, 9, 0, 0, 0, 0x4a, 0, 0, 0, 0 :: u8] = 12" by simp
  show ?thesis
    using h1 h2
      chacha20Block_spec [of "map word_of_nat [0..<32]" "[0, 0, 0, 9, 0, 0, 0, 0x4a, 0, 0, 0, 0]" 1]
    by blast
qed

lemma byteAt_padTo: "j < n \<Longrightarrow> byteAt (padTo n x) j = byteAt x j"
  by (auto simp: byteAt_def padTo_def nth_append)

lemma readWord_padTo: "i * 4 + 3 < n \<Longrightarrow> readWord (padTo n x) i = readWord x i"
  by (simp add: readWord_def byteAt_padTo)

lemma initState_padTo:
  "initState (padTo 32 key) counter (padTo 12 nonce) = initState key counter nonce"
  by (simp add: initState_def readWord_padTo)

lemma chacha20Block_padTo:
  "chacha20Block (padTo 32 key) counter (padTo 12 nonce) = chacha20Block key counter nonce"
  by (simp add: chacha20Block_def initState_padTo)

lemma chacha20Encrypt_padTo:
  "chacha20Encrypt (padTo 32 key) (padTo 12 nonce) data = chacha20Encrypt key nonce data"
  by (rule nth_equalityI)
     (simp_all add: chacha20Encrypt_length chacha20Encrypt_nth keystreamByte_def chacha20Block_padTo)

text \<open>
  Claim C8, as amended. \<open>chacha20Encrypt\<close> checks neither length and never fails: for
  every key, nonce and data it returns an output of the length of the data, the one it
  returns for the key cut or zero-padded to 32 bytes and the nonce cut or zero-padded to
  12 bytes.
\<close>

theorem streamApply_any_lengths:
  "streamApply key nonce data = Inr (chacha20Encrypt (padTo 32 key) (padTo 12 nonce) data)
   \<and> length (chacha20Encrypt (padTo 32 key) (padTo 12 nonce) data) = length data"
  by (simp add: streamApply_def chacha20Encrypt_padTo chacha20Encrypt_length)

text \<open>
  The claim as stated fails: with an empty key and an empty nonce the call returns the
  encrypted byte.
\<close>

theorem streamApply_short_key_returns:
  "length ([] :: u8 list) \<noteq> 32
   \<and> streamApply [] [] [1] \<noteq> Inl InvalidKeyMaterial
   \<and> streamApply [] [] [1] = Inr [0x77]"
proof -
  have pad: "padTo 32 [] = replicate 32 0" "padTo 12 [] = replicate 12 0"
    by (simp_all add: padTo_def)
  have blk: "chacha20Block [] 0 [] = referenceBlock"
    using chacha20Block_padTo [of "[]" 0 "[]"] zero_block by (simp only: pad)
  have len: "length (chacha20Encrypt [] [] [1]) = 1"
    by (simp add: chacha20Encrypt_length)
  have "chacha20Encrypt [] [] [1] ! 0 = 1 XOR byteAt referenceBlock 0"
    using chacha20Encrypt_nth [of 0 "[1]" "[]" "[]"] by (simp add: keystreamByte_def blk)
  also have "\<dots> = 0x77"
    by (simp add: byteAt_def referenceBlock_def)
  finally have "chacha20Encrypt [] [] [1] = [0x77]"
    using len by (cases "chacha20Encrypt [] [] [1]") simp_all
  then show ?thesis by (simp add: streamApply_def)
qed

end
